theory Spec2Isabelle
  imports Complex_Main "HOL-Library.AList" "HOL-Library.Product_Lexorder"
    "HOL-Library.List_Lexorder" "HOL-Library.Char_ord"
begin

text \<open>
  The import command of the stock reports (\<open>stocks/management/commands/import_reports.py\<close>),
  the fields and tables of \<open>stocks/models.py\<close> and the queries of the home view
  (\<open>stocks/views.py\<close>), as functions on explicit values: a parsed JSON document, a store
  of rows, a clock. Exceptions are values of a sum type; the definitions come first, the
  lemmas and the theorems about them follow.
\<close>

section \<open>Values read from the input documents\<close>

text \<open>
  A document is what \<^verbatim>\<open>json.loads\<close> returns. An object is its list of items in
  iteration order (a Python dict: the keys are distinct). A number is represented by the
  decimal that \<^verbatim>\<open>str\<close> prints for it, which is what \<^verbatim>\<open>Decimal(str(v))\<close> reads back.
  Strings are ASCII text.
\<close>

datatype jval =
    JNull
  | JBool bool
  | JNum rat
  | JStr string
  | JArr "jval list"
  | JObj "(string \<times> jval) list"

datatype error =
    CommandError
  | InvalidOperation
  | ValueError
  | TypeError
  | AttributeError
  | KeyError

text \<open>
  Library functions the command calls and the repository does not define:
  \<^verbatim>\<open>decimal.Decimal\<close> on a string (\<open>None\<close>: it raises InvalidOperation),
  \<^verbatim>\<open>datetime.strptime(ts, TS_FORMAT)\<close> followed by \<^verbatim>\<open>timezone.make_aware\<close>, giving an
  instant in seconds (\<open>None\<close>: it raises ValueError), and \<^verbatim>\<open>str\<close> on a value that is
  not a string.
\<close>

record env =
  Decimal :: "string \<Rightarrow> rat option"
  strptime :: "string \<Rightarrow> int option"
  py_str :: "jval \<Rightarrow> string"

fun truthy :: "jval \<Rightarrow> bool" where
  "truthy JNull = False"
| "truthy (JBool b) = b"
| "truthy (JNum r) = (r \<noteq> 0)"
| "truthy (JStr s) = (s \<noteq> [])"
| "truthy (JArr xs) = (xs \<noteq> [])"
| "truthy (JObj kvs) = (kvs \<noteq> [])"

definition get :: "(string \<times> jval) list \<Rightarrow> string \<Rightarrow> jval \<Rightarrow> jval" where
  "get item k d = (case map_of item k of None \<Rightarrow> d | Some v \<Rightarrow> v)"

definition or_else :: "jval \<Rightarrow> jval \<Rightarrow> jval" where
  "or_else v d = (if truthy v then v else d)"

section \<open>Strings\<close>

definition isspace :: "char \<Rightarrow> bool" where
  "isspace c = (c \<in> {CHR 0x09, CHR 0x0A, CHR 0x0B, CHR 0x0C, CHR 0x0D,
                      CHR 0x1C, CHR 0x1D, CHR 0x1E, CHR 0x1F, CHR 0x20})"

definition isdigit :: "char \<Rightarrow> bool" where
  "isdigit c = (let n = (of_char c :: nat) in 48 \<le> n \<and> n \<le> 57)"

definition upper_char :: "char \<Rightarrow> char" where
  "upper_char c = (let n = (of_char c :: nat) in if 97 \<le> n \<and> n \<le> 122 then char_of (n - 32) else c)"

definition upper :: "string \<Rightarrow> string" where
  "upper s = map upper_char s"

definition strip :: "string \<Rightarrow> string" where
  "strip s = rev (dropWhile isspace (rev (dropWhile isspace s)))"

text \<open>\<^verbatim>\<open>s.split()\<close>: the maximal runs of non-whitespace characters, in order.\<close>

fun split_from :: "string \<Rightarrow> string \<Rightarrow> string list" where
  "split_from cur [] = (if cur = [] then [] else [cur])"
| "split_from cur (c # cs) =
     (if isspace c then (if cur = [] then split_from [] cs else cur # split_from [] cs)
      else split_from (cur @ [c]) cs)"

definition split :: "string \<Rightarrow> string list" where
  "split s = split_from [] s"

text \<open>\<^verbatim>\<open>int(s)\<close> on a string of decimal digits.\<close>

definition digit_val :: "char \<Rightarrow> nat" where
  "digit_val c = of_char c - 48"

definition int_of_digits :: "string \<Rightarrow> nat" where
  "int_of_digits s = foldl (\<lambda>n c. 10 * n + digit_val c) 0 s"

section \<open>Normalization utilities\<close>

text \<open>\<^verbatim>\<open>_ws.sub("_", value)\<close>: every maximal run of whitespace becomes one underscore;
  the flag says whether the previous character was whitespace.\<close>

fun ws_sub_from :: "bool \<Rightarrow> string \<Rightarrow> string" where
  "ws_sub_from prev [] = []"
| "ws_sub_from prev (c # cs) =
     (if isspace c then (if prev then ws_sub_from True cs else CHR ''_'' # ws_sub_from True cs)
      else c # ws_sub_from False cs)"

text \<open>\<open>CharField.to_python\<close>: a string is kept, any other value goes through \<^verbatim>\<open>str\<close>.
  (\<open>None\<close> does not reach it: the command has replaced every falsy value by a string.)\<close>

definition to_python :: "env \<Rightarrow> jval \<Rightarrow> string" where
  "to_python E v = (case v of JStr s \<Rightarrow> s | _ \<Rightarrow> py_str E v)"

text \<open>\<open>UppercaseCharField.normalize\<close> and \<open>NormalizedRatingField.normalize\<close>, on the string
  \<open>to_python\<close> gives.\<close>

definition normalize_upper :: "string \<Rightarrow> string" where
  "normalize_upper value = (if value = [] then value else upper (strip value))"

definition normalize_rating :: "string \<Rightarrow> string" where
  "normalize_rating value = (if value = [] then value else ws_sub_from False (upper (strip value)))"

definition parse_ticker_region :: "jval \<Rightarrow> error + string \<times> string" where
  "parse_ticker_region s =
     (case or_else s (JStr []) of
        JStr t \<Rightarrow> (case split t of a # b # rest \<Rightarrow> Inr (a, b) | _ \<Rightarrow> Inl ValueError)
      | _ \<Rightarrow> Inl AttributeError)"

text \<open>
  \<open>timezone.now()\<close> reads the clock: \<open>clock n\<close> is what the \<open>n\<close>-th reading of a run
  returns. \<open>parse_timestamp\<close> returns the instant and the number of readings made so far.
\<close>

definition parse_timestamp :: "env \<Rightarrow> (nat \<Rightarrow> int) \<Rightarrow> nat \<Rightarrow> jval \<Rightarrow> error + int \<times> nat" where
  "parse_timestamp E clock n ts =
     (if \<not> truthy ts then Inr (clock n, Suc n)
      else case ts of
             JStr s \<Rightarrow> (case strptime E s of None \<Rightarrow> Inl ValueError | Some dt \<Rightarrow> Inr (dt, n))
           | _ \<Rightarrow> Inl TypeError)"

fun to_decimal :: "env \<Rightarrow> jval \<Rightarrow> error + rat option" where
  "to_decimal E JNull = Inr None"
| "to_decimal E (JStr s) =
     (if s = [] then Inr None
      else case Decimal E s of None \<Rightarrow> Inl InvalidOperation | Some d \<Rightarrow> Inr (Some d))"
| "to_decimal E (JNum r) = Inr (Some r)"
| "to_decimal E v = Inl InvalidOperation"

text \<open>
  \<open>$\<close> of a Python regular expression matches at the end of the string and just before
  a newline that ends the string; \<open>dollar rest\<close> is that test on what is left of the key.
\<close>

definition dollar :: "string \<Rightarrow> bool" where
  "dollar rest = (rest = [] \<or> rest = [CHR 0x0A])"

text \<open>\<open>EPS_YEAR_RE\<close> returns the group \<open>year\<close> of a match, \<open>EPS_CODE_RE\<close> the group \<open>code\<close>.\<close>

definition EPS_YEAR_RE :: "string \<Rightarrow> string option" where
  "EPS_YEAR_RE key =
     (if take 2 key = ''20'' \<and> 4 \<le> length key \<and> isdigit (key ! 2) \<and> isdigit (key ! 3)
         \<and> ((take 5 (drop 4 key) = ''E_EPS'' \<and> dollar (drop 9 key))
            \<or> (take 4 (drop 4 key) = ''_EPS'' \<and> dollar (drop 8 key)))
      then Some (take 4 key) else None)"

definition EPS_CODE_RE :: "string \<Rightarrow> string option" where
  "EPS_CODE_RE key =
     (if 3 \<le> length key \<and> isdigit (key ! 0) \<and> isdigit (key ! 1) \<and> isdigit (key ! 2)
         \<and> take 4 (drop 3 key) = ''_EPS'' \<and> dollar (drop 7 key)
      then Some (take 3 key) else None)"

definition extract_eps_year :: "string \<Rightarrow> nat option" where
  "extract_eps_year key =
     (case EPS_YEAR_RE key of
        Some year \<Rightarrow> Some (int_of_digits year)
      | None \<Rightarrow>
          (case EPS_CODE_RE key of
             Some code \<Rightarrow> Some (int_of_digits code + 1700)
           | None \<Rightarrow> None))"

definition eps_priority :: "string \<Rightarrow> nat" where
  "eps_priority key =
     (if take 2 key = ''20'' \<and> 4 \<le> length key \<and> isdigit (key ! 2) \<and> isdigit (key ! 3)
         \<and> take 5 (drop 4 key) = ''E_EPS'' \<and> dollar (drop 9 key) then 3
      else if take 2 key = ''20'' \<and> 4 \<le> length key \<and> isdigit (key ! 2) \<and> isdigit (key ! 3)
         \<and> take 4 (drop 4 key) = ''_EPS'' \<and> dollar (drop 8 key) then 2
      else if 3 \<le> length key \<and> isdigit (key ! 0) \<and> isdigit (key ! 1) \<and> isdigit (key ! 2)
         \<and> take 4 (drop 3 key) = ''_EPS'' \<and> dollar (drop 7 key) then 1
      else 0)"

section \<open>EPS field resolver\<close>

text \<open>
  The two dicts of the loop, \<open>eps_by_year\<close> and \<open>eps_source_pri\<close>, as association lists in
  insertion order; assigning to a key replaces its value in place or appends the key.
\<close>

type_synonym eps_acc = "(nat \<times> rat) list \<times> (nat \<times> nat) list"

definition empty_value :: "jval \<Rightarrow> bool" where
  "empty_value v = (v = JStr [] \<or> v = JNull)"

fun eps_step :: "env \<Rightarrow> string \<times> jval \<Rightarrow> eps_acc \<Rightarrow> error + eps_acc" where
  "eps_step E (k, v) (eps_by_year, eps_source_pri) =
     (case extract_eps_year k of
        None \<Rightarrow> Inr (eps_by_year, eps_source_pri)
      | Some year \<Rightarrow>
          if empty_value v then Inr (eps_by_year, eps_source_pri)
          else
            let pri = eps_priority k in
            (case (if map_of eps_by_year year = None then Inr True
                   else case map_of eps_source_pri year of
                          None \<Rightarrow> Inl KeyError
                        | Some p \<Rightarrow> Inr (pri > p)) of
               Inl e \<Rightarrow> Inl e
             | Inr False \<Rightarrow> Inr (eps_by_year, eps_source_pri)
             | Inr True \<Rightarrow>
                 (case to_decimal E v of
                    Inl e \<Rightarrow> Inl e
                  | Inr None \<Rightarrow> Inr (eps_by_year, eps_source_pri)
                  | Inr (Some eps_val) \<Rightarrow>
                      Inr (AList.update year eps_val eps_by_year,
                           AList.update year pri eps_source_pri))))"

fun eps_loop :: "env \<Rightarrow> (string \<times> jval) list \<Rightarrow> eps_acc \<Rightarrow> error + eps_acc" where
  "eps_loop E [] acc = Inr acc"
| "eps_loop E (kv # kvs) acc =
     (case eps_step E kv acc of Inl e \<Rightarrow> Inl e | Inr acc' \<Rightarrow> eps_loop E kvs acc')"

definition eps_rows :: "env \<Rightarrow> (string \<times> jval) list \<Rightarrow> error + (nat \<times> rat) list" where
  "eps_rows E item =
     (case eps_loop E item ([], []) of
        Inl e \<Rightarrow> Inl e
      | Inr (eps_by_year, eps_source_pri) \<Rightarrow> Inr (sort eps_by_year))"

section \<open>Persisted rows\<close>

text \<open>
  The tables of \<open>models.py\<close>, each a list of rows in insertion order. \<open>stock_pk\<close> and
  \<open>report_pk\<close> are the automatic primary keys (\<open>id\<close>); \<open>stock_id\<close>, \<open>takeaway_report_id\<close>
  and \<open>eps_report_id\<close> are the foreign keys. Instants are seconds.
\<close>

record stock_row =
  stock_pk :: nat
  ticker :: string
  region :: string
  company_name :: string
  currency_code :: string

record report_row =
  report_pk :: nat
  stock_id :: nat
  link :: string
  as_of_timestamp :: int
  created_at :: int
  blurb :: string
  rating :: string
  analyst_team :: string
  report_subtitle :: string
  raw_text :: jval
  price :: "rat option"
  price_objective :: "rat option"
  upside :: "rat option"
  average_daily_value :: "rat option"
  market_cap :: "rat option"

record takeaway_row =
  takeaway_report_id :: nat
  takeaway_order :: nat
  takeaway_text :: string

record eps_row =
  eps_report_id :: nat
  year :: nat
  eps :: rat

record store =
  stocks :: "stock_row list"
  reports :: "report_row list"
  takeaways :: "takeaway_row list"
  eps_forecasts :: "eps_row list"

definition empty_store :: store where
  "empty_store = \<lparr>stocks = [], reports = [], takeaways = [], eps_forecasts = []\<rparr>"

definition next_pk :: "nat list \<Rightarrow> nat" where
  "next_pk pks = Suc (fold max pks 0)"

section \<open>Ingestion pipeline\<close>

text \<open>The dict \<open>report_defaults\<close>, with the values as the command computes them.\<close>

record report_defaults =
  d_link :: jval
  d_blurb :: jval
  d_rating :: jval
  d_analyst_team :: jval
  d_report_subtitle :: jval
  d_raw_text :: jval
  d_price :: "rat option"
  d_price_objective :: "rat option"
  d_upside :: "rat option"
  d_average_daily_value :: "rat option"
  d_market_cap :: "rat option"

definition build_report_defaults :: "env \<Rightarrow> (string \<times> jval) list \<Rightarrow> error + report_defaults" where
  "build_report_defaults E item =
     (case to_decimal E (get item ''Price'' JNull) of
        Inl e \<Rightarrow> Inl e
      | Inr p \<Rightarrow>
     (case to_decimal E (get item ''Price_Objective'' JNull) of
        Inl e \<Rightarrow> Inl e
      | Inr po \<Rightarrow>
     (case to_decimal E (get item ''Upside'' JNull) of
        Inl e \<Rightarrow> Inl e
      | Inr u \<Rightarrow>
     (case to_decimal E (get item ''Average_Daily_Value'' JNull) of
        Inl e \<Rightarrow> Inl e
      | Inr adv \<Rightarrow>
     (case to_decimal E (get item ''Market_Cap'' JNull) of
        Inl e \<Rightarrow> Inl e
      | Inr mc \<Rightarrow>
          Inr \<lparr>d_link = or_else (get item ''Link'' (JStr [])) (JStr []),
               d_blurb = or_else (get item ''Blurb'' (JStr [])) (JStr []),
               d_rating = or_else (get item ''Rating'' (JStr [])) (JStr []),
               d_analyst_team = or_else (get item ''Analyst_Team'' (JStr [])) (JStr []),
               d_report_subtitle = or_else (get item ''Report_Subtitle'' (JStr [])) (JStr []),
               d_raw_text = or_else (get item ''Raw_Text'' (JArr [])) (JArr []),
               d_price = p,
               d_price_objective = po,
               d_upside = u,
               d_average_daily_value = adv,
               d_market_cap = mc\<rparr>)))))"

text \<open>
  The body of the loop over the records of a document, up to the dry-run test: the values
  it has computed when it gets there (\<open>Parsed\<close>), or \<open>Skip\<close> when the \<open>except\<close> clause
  around the ticker and the timestamp runs \<open>continue\<close>, or \<open>Raises\<close> when an exception
  leaves the loop.
\<close>

record parsed =
  p_ticker :: string
  p_region :: string
  p_as_of_ts :: int
  p_ticks :: nat
  p_currency :: jval
  p_company_name :: jval
  p_report_defaults :: report_defaults
  p_key_takeaways :: jval
  p_eps_rows :: "(nat \<times> rat) list"

datatype parse_result = Skip | Raises error | Parsed parsed

definition parse_item :: "env \<Rightarrow> (nat \<Rightarrow> int) \<Rightarrow> nat \<Rightarrow> jval \<Rightarrow> parse_result" where
  "parse_item E clock n item =
     (case item of
        JObj kvs \<Rightarrow>
          (case parse_ticker_region (get kvs ''Ticker'' (JStr [])) of
             Inl e \<Rightarrow> Skip
           | Inr (tick, reg) \<Rightarrow>
               (case parse_timestamp E clock n (get kvs ''Timestamp'' JNull) of
                  Inl e \<Rightarrow> Skip
                | Inr (as_of_ts, n') \<Rightarrow>
                    (case build_report_defaults E kvs of
                       Inl e \<Rightarrow> Raises e
                     | Inr defaults \<Rightarrow>
                         (case eps_rows E kvs of
                            Inl e \<Rightarrow> Raises e
                          | Inr rows \<Rightarrow>
                              Parsed \<lparr>p_ticker = tick,
                                      p_region = reg,
                                      p_as_of_ts = as_of_ts,
                                      p_ticks = n',
                                      p_currency = or_else (get kvs ''Currency'' (JStr ''USD'')) (JStr ''USD''),
                                      p_company_name = or_else (get kvs ''Company'' (JStr [])) (JStr []),
                                      p_report_defaults = defaults,
                                      p_key_takeaways = or_else (get kvs ''Key_Takeaways'' (JArr [])) (JArr []),
                                      p_eps_rows = rows\<rparr>))))
      | _ \<Rightarrow> Raises AttributeError)"

text \<open>
  \<open>Stock.objects.get_or_create\<close>: the lookup values go through the field's
  \<open>get_prep_value\<close>, the values of a new row through its \<open>pre_save\<close>; both normalize.
\<close>

definition find_stock :: "store \<Rightarrow> string \<Rightarrow> string \<Rightarrow> stock_row option" where
  "find_stock db tick reg =
     find (\<lambda>s. ticker s = normalize_upper tick \<and> region s = normalize_upper reg) (stocks db)"

definition Stock_get_or_create ::
  "env \<Rightarrow> store \<Rightarrow> string \<Rightarrow> string \<Rightarrow> jval \<Rightarrow> jval \<Rightarrow> stock_row \<times> bool \<times> store" where
  "Stock_get_or_create E db tick reg company currency =
     (case find_stock db tick reg of
        Some s \<Rightarrow> (s, False, db)
      | None \<Rightarrow>
          (let s = \<lparr>stock_pk = next_pk (map stock_pk (stocks db)),
                    ticker = normalize_upper tick,
                    region = normalize_upper reg,
                    company_name = to_python E company,
                    currency_code = normalize_upper (to_python E currency)\<rparr>
           in (s, True, db\<lparr>stocks := stocks db @ [s]\<rparr>)))"

definition find_report :: "store \<Rightarrow> nat \<Rightarrow> int \<Rightarrow> report_row option" where
  "find_report db sid ts = find (\<lambda>r. stock_id r = sid \<and> as_of_timestamp r = ts) (reports db)"

definition DailyReport_get_or_create ::
  "env \<Rightarrow> (nat \<Rightarrow> int) \<Rightarrow> nat \<Rightarrow> store \<Rightarrow> stock_row \<Rightarrow> int \<Rightarrow> report_defaults
     \<Rightarrow> report_row \<times> bool \<times> store \<times> nat" where
  "DailyReport_get_or_create E clock n db stock as_of_ts defaults =
     (case find_report db (stock_pk stock) as_of_ts of
        Some r \<Rightarrow> (r, False, db, n)
      | None \<Rightarrow>
          (let r = \<lparr>report_pk = next_pk (map report_pk (reports db)),
                    stock_id = stock_pk stock,
                    link = to_python E (d_link defaults),
                    as_of_timestamp = as_of_ts,
                    created_at = clock n,
                    blurb = to_python E (d_blurb defaults),
                    rating = normalize_rating (to_python E (d_rating defaults)),
                    analyst_team = to_python E (d_analyst_team defaults),
                    report_subtitle = to_python E (d_report_subtitle defaults),
                    raw_text = d_raw_text defaults,
                    price = d_price defaults,
                    price_objective = d_price_objective defaults,
                    upside = d_upside defaults,
                    average_daily_value = d_average_daily_value defaults,
                    market_cap = d_market_cap defaults\<rparr>
           in (r, True, db\<lparr>reports := reports db @ [r]\<rparr>, Suc n)))"

text \<open>\<open>enumerate(key_takeaways)\<close> iterates a list, the characters of a string or the keys of
  a dict, and raises TypeError on a number or a boolean.\<close>

definition iterate :: "jval \<Rightarrow> error + jval list" where
  "iterate v =
     (case v of
        JArr xs \<Rightarrow> Inr xs
      | JStr s \<Rightarrow> Inr (map (\<lambda>c. JStr [c]) s)
      | JObj kvs \<Rightarrow> Inr (map (\<lambda>kv. JStr (fst kv)) kvs)
      | _ \<Rightarrow> Inl TypeError)"

definition takeaway_rows :: "env \<Rightarrow> nat \<Rightarrow> jval \<Rightarrow> error + takeaway_row list" where
  "takeaway_rows E rid key_takeaways =
     (case iterate key_takeaways of
        Inl e \<Rightarrow> Inl e
      | Inr xs \<Rightarrow>
          Inr (map (\<lambda>(i, txt). \<lparr>takeaway_report_id = rid, takeaway_order = i,
                                 takeaway_text = to_python E txt\<rparr>)
                 (filter (\<lambda>(i, txt). truthy txt) (enumerate 0 xs))))"

definition eps_forecast_rows :: "nat \<Rightarrow> (nat \<times> rat) list \<Rightarrow> eps_row list" where
  "eps_forecast_rows rid rows = map (\<lambda>(y, e). \<lparr>eps_report_id = rid, year = y, eps = e\<rparr>) rows"

text \<open>
  The \<open>transaction.atomic()\<close> block. It returns the store, the number of clock readings
  and \<open>report_created\<close>; an exception inside it leaves the store as it was before the block.
\<close>

definition atomic_block ::
  "env \<Rightarrow> (nat \<Rightarrow> int) \<Rightarrow> parsed \<Rightarrow> store \<Rightarrow> error + store \<times> nat \<times> bool" where
  "atomic_block E clock p db =
     (case Stock_get_or_create E db (p_ticker p) (p_region p) (p_company_name p) (p_currency p) of
        (stock, created, db1) \<Rightarrow>
     (case DailyReport_get_or_create E clock (p_ticks p) db1 stock (p_as_of_ts p) (p_report_defaults p) of
        (report, report_created, db2, n2) \<Rightarrow>
          if report_created then
            (case takeaway_rows E (report_pk report) (p_key_takeaways p) of
               Inl e \<Rightarrow> Inl e
             | Inr tks \<Rightarrow>
                 Inr (db2\<lparr>takeaways := takeaways db2 @ tks,
                          eps_forecasts := eps_forecasts db2
                                            @ eps_forecast_rows (report_pk report) (p_eps_rows p)\<rparr>,
                      n2, True))
          else Inr (db2, n2, False)))"

record run =
  db :: store
  ticks :: nat
  total_reports :: nat
  created_reports :: nat
  skipped_reports :: nat

definition import_item :: "env \<Rightarrow> (nat \<Rightarrow> int) \<Rightarrow> bool \<Rightarrow> jval \<Rightarrow> run \<Rightarrow> error + run" where
  "import_item E clock dry_run item st =
     (let st1 = st\<lparr>total_reports := total_reports st + 1\<rparr> in
      case parse_item E clock (ticks st1) item of
        Raises e \<Rightarrow> Inl e
      | Skip \<Rightarrow> Inr st1
      | Parsed p \<Rightarrow>
          if dry_run then Inr (st1\<lparr>ticks := p_ticks p\<rparr>)
          else
            (case atomic_block E clock p (db st1) of
               Inl e \<Rightarrow> Inl e
             | Inr (db', n', report_created) \<Rightarrow>
                 if report_created
                 then Inr (st1\<lparr>db := db', ticks := n', created_reports := created_reports st1 + 1\<rparr>)
                 else Inr (st1\<lparr>db := db', ticks := n', skipped_reports := skipped_reports st1 + 1\<rparr>)))"

text \<open>
  A run ends with the summary (\<open>Completed\<close>) or with an exception; the store then holds
  what the records before it committed.
\<close>

datatype outcome = Completed run | Raised error store

fun import_items :: "env \<Rightarrow> (nat \<Rightarrow> int) \<Rightarrow> bool \<Rightarrow> jval list \<Rightarrow> run \<Rightarrow> outcome" where
  "import_items E clock dry_run [] st = Completed st"
| "import_items E clock dry_run (item # items) st =
     (case import_item E clock dry_run item st of
        Inl e \<Rightarrow> Raised e (db st)
      | Inr st' \<Rightarrow> import_items E clock dry_run items st')"

fun import_files :: "env \<Rightarrow> (nat \<Rightarrow> int) \<Rightarrow> bool \<Rightarrow> jval list \<Rightarrow> run \<Rightarrow> outcome" where
  "import_files E clock dry_run [] st = Completed st"
| "import_files E clock dry_run (data # files) st =
     (case data of
        JArr items \<Rightarrow>
          (case import_items E clock dry_run items st of
             Raised e d \<Rightarrow> Raised e d
           | Completed st' \<Rightarrow> import_files E clock dry_run files st')
      | _ \<Rightarrow> Raised CommandError (db st))"

text \<open>\<open>Command.handle\<close>, on the parsed contents of the files in the order of their names.\<close>

definition handle :: "env \<Rightarrow> (nat \<Rightarrow> int) \<Rightarrow> bool \<Rightarrow> jval list \<Rightarrow> store \<Rightarrow> outcome" where
  "handle E clock dry_run files db0 =
     (if files = [] then Raised CommandError db0
      else import_files E clock dry_run files
             \<lparr>db = db0, ticks = 0, total_reports = 0, created_reports = 0, skipped_reports = 0\<rparr>)"

definition store_of :: "outcome \<Rightarrow> store" where
  "store_of out = (case out of Completed st \<Rightarrow> db st | Raised e d \<Rightarrow> d)"


section \<open>Analytics engine\<close>

definition TOP_N_UPSIDE :: nat where "TOP_N_UPSIDE = 10"
definition TOP_N_MOST_REPORTED :: nat where "TOP_N_MOST_REPORTED = 10"
definition CHART_STOCKS_COUNT :: nat where "CHART_STOCKS_COUNT = 5"
definition CHART_MAX_POINTS :: nat where "CHART_MAX_POINTS = 60"

text \<open>\<open>timedelta(days=n)\<close> in seconds.\<close>

definition days :: "int \<Rightarrow> int" where
  "days n = n * 86400"

text \<open>
  The annotation \<open>max_upside\<close> of a stock: the aggregate \<open>Max\<close> over the joined reports that
  pass the filter, null when none does.
\<close>

definition max_upside :: "store \<Rightarrow> int \<Rightarrow> stock_row \<Rightarrow> rat option" where
  "max_upside d start s =
     (let us = List.map_filter upside
                 (filter (\<lambda>r. stock_id r = stock_pk s \<and> start \<le> as_of_timestamp r \<and> upside r \<noteq> None)
                    (reports d))
      in if us = [] then None else Some (Max (set us)))"

text \<open>
  The query behind \<open>top_upside_7d\<close> and \<open>top_upside_30d\<close>: the annotated stocks whose
  \<open>max_upside\<close> is not null, by decreasing \<open>max_upside\<close>, then the slice. The store leaves
  the order of equal keys open; the sort here keeps them in table order.
\<close>

definition upside_ranking :: "store \<Rightarrow> int \<Rightarrow> (stock_row \<times> rat) list" where
  "upside_ranking d start =
     sort_key (\<lambda>(s, m). - m)
       (List.map_filter (\<lambda>s. map_option (Pair s) (max_upside d start s)) (stocks d))"

definition top_upside :: "store \<Rightarrow> int \<Rightarrow> nat \<Rightarrow> (stock_row \<times> rat) list" where
  "top_upside d start limit = take limit (upside_ranking d start)"

definition report_count :: "store \<Rightarrow> int \<Rightarrow> stock_row \<Rightarrow> nat" where
  "report_count d start s =
     length (filter (\<lambda>r. stock_id r = stock_pk s \<and> start \<le> as_of_timestamp r) (reports d))"

definition most_reported :: "store \<Rightarrow> int \<Rightarrow> nat \<Rightarrow> (stock_row \<times> nat) list" where
  "most_reported d start limit =
     take limit
       (sort_key (\<lambda>(s, c). (- int c, ticker s))
          (filter (\<lambda>(s, c). c > 0) (map (\<lambda>s. (s, report_count d start s)) (stocks d))))"

text \<open>
  The annotation \<open>prev_rating\<close>: the first rating of the subquery \<open>prev_rating_sq\<close>, which
  orders the earlier reports of the same stock by decreasing \<open>as_of_timestamp\<close>, and the
  empty string when the subquery has no row.
\<close>

definition prev_rating :: "store \<Rightarrow> report_row \<Rightarrow> string" where
  "prev_rating d r =
     (case sort_key (\<lambda>p. - as_of_timestamp p)
             (filter (\<lambda>p. stock_id p = stock_id r \<and> as_of_timestamp p < as_of_timestamp r)
                (reports d)) of
        [] \<Rightarrow> []
      | p # ps \<Rightarrow> rating p)"

definition downgrade_events :: "store \<Rightarrow> report_row list" where
  "downgrade_events d =
     sort_key (\<lambda>r. - as_of_timestamp r)
       (filter (\<lambda>r. rating r = normalize_rating ''UNDERPERFORM''
                     \<and> prev_rating d r \<in> {''BUY'', ''NEUTRAL''})
          (reports d))"

definition recent_downgrades :: "store \<Rightarrow> report_row list" where
  "recent_downgrades d = take 5 (downgrade_events d)"

text \<open>
  \<open>_build_price_series\<close>. A point holds \<open>isoformat\<close> of the instant and \<open>float\<close> of the two
  decimals; both conversions are parameters. The result is the dict \<open>series\<close> as an
  association list, keyed by the stock's primary key (whose decimal text is the JSON key).
\<close>

record ('t, 'f) point =
  pt_t :: 't
  pt_price :: "'f option"
  pt_po :: "'f option"

definition point_of :: "(int \<Rightarrow> 't) \<Rightarrow> (rat \<Rightarrow> 'f) \<Rightarrow> report_row \<Rightarrow> ('t, 'f) point" where
  "point_of isoformat float row =
     \<lparr>pt_t = isoformat (as_of_timestamp row),
      pt_price = map_option float (price row),
      pt_po = map_option float (price_objective row)\<rparr>"

definition price_rows :: "store \<Rightarrow> nat list \<Rightarrow> int \<Rightarrow> report_row list" where
  "price_rows d stock_ids start_dt =
     sort_key (\<lambda>r. (stock_id r, as_of_timestamp r))
       (filter (\<lambda>r. stock_id r \<in> set stock_ids \<and> start_dt \<le> as_of_timestamp r
                     \<and> \<not> (price r = None \<and> price_objective r = None))
          (reports d))"

definition build_price_series ::
  "(int \<Rightarrow> 't) \<Rightarrow> (rat \<Rightarrow> 'f) \<Rightarrow> store \<Rightarrow> stock_row list \<Rightarrow> int \<Rightarrow> (nat \<times> ('t, 'f) point list) list" where
  "build_price_series isoformat float d stocks_arg start_dt =
     (if stocks_arg = [] then []
      else
        let stock_ids = map stock_pk stocks_arg;
            qs = price_rows d stock_ids start_dt;
            series0 = fold (\<lambda>sid series. AList.update sid [] series) stock_ids [];
            series1 = fold (\<lambda>row series.
                              AList.map_entry (stock_id row)
                                (\<lambda>points. points @ [point_of isoformat float row]) series)
                        qs series0
        in map (\<lambda>(sid, points).
                  (sid, if length points > CHART_MAX_POINTS
                        then drop (length points - CHART_MAX_POINTS) points
                        else points))
             series1)"

record ('t, 'f) ctx =
  top_upside_7d :: "(stock_row \<times> rat) list"
  top_upside_30d :: "(stock_row \<times> rat) list"
  most_reported_30d :: "(stock_row \<times> nat) list"
  most_reported_365d :: "(stock_row \<times> nat) list"
  ctx_recent_downgrades :: "report_row list"
  chart_stocks_30d :: "stock_row list"
  chart_stocks_365d :: "stock_row list"
  chart_series_30d :: "(nat \<times> ('t, 'f) point list) list"
  chart_series_365d :: "(nat \<times> ('t, 'f) point list) list"

text \<open>\<open>HomeView.get_context_data\<close>; \<open>now\<close> is the one reading of the clock it makes.\<close>

definition get_context_data ::
  "(int \<Rightarrow> 't) \<Rightarrow> (rat \<Rightarrow> 'f) \<Rightarrow> store \<Rightarrow> int \<Rightarrow> ('t, 'f) ctx" where
  "get_context_data isoformat float d now =
     (let start_7d = now - days 7;
          start_30d = now - days 30;
          start_365d = now - days 365;
          mr_30d = most_reported d start_30d TOP_N_MOST_REPORTED;
          mr_365d = most_reported d start_365d TOP_N_MOST_REPORTED;
          cs_30d = map fst (take CHART_STOCKS_COUNT mr_30d);
          cs_365d = map fst (take CHART_STOCKS_COUNT mr_365d)
      in \<lparr>top_upside_7d = top_upside d start_7d TOP_N_UPSIDE,
          top_upside_30d = top_upside d start_30d TOP_N_UPSIDE,
          most_reported_30d = mr_30d,
          most_reported_365d = mr_365d,
          ctx_recent_downgrades = recent_downgrades d,
          chart_stocks_30d = cs_30d,
          chart_stocks_365d = cs_365d,
          chart_series_30d = build_price_series isoformat float d cs_30d start_30d,
          chart_series_365d = build_price_series isoformat float d cs_365d start_365d\<rparr>)"

section \<open>What a run leaves behind\<close>

text \<open>
  \<open>summary\<close> is the last line the command prints, which only a run that completes
  reaches: the counts parsed, created and skipped. \<open>present\<close>: the store has a report for
  the key (ticker, region, timestamp), found as \<open>get_or_create\<close> finds it. \<open>extends\<close>: the
  second store holds the rows of the first, followed by new ones. \<open>records\<close>: the records
  of a document that is a list. \<open>has_timestamp\<close>: the record carries a non-empty
  \<open>Timestamp\<close>, so its key does not depend on the clock. \<open>parses\<close>: the record reaches the
  dry-run test. \<open>settled\<close>: the record is skipped by the parser, or its report is in the
  store.
\<close>

definition summary :: "outcome \<Rightarrow> (nat \<times> nat \<times> nat) option" where
  "summary out =
     (case out of
        Completed st \<Rightarrow> Some (total_reports st, created_reports st, skipped_reports st)
      | Raised e d \<Rightarrow> None)"

definition present :: "store \<Rightarrow> string \<Rightarrow> string \<Rightarrow> int \<Rightarrow> bool" where
  "present d tick reg ts =
     (case find_stock d tick reg of
        None \<Rightarrow> False
      | Some s \<Rightarrow> find_report d (stock_pk s) ts \<noteq> None)"

definition extends :: "store \<Rightarrow> store \<Rightarrow> bool" where
  "extends d d' =
     ((\<exists>new. stocks d' = stocks d @ new) \<and> (\<exists>new. reports d' = reports d @ new)
      \<and> (\<exists>new. takeaways d' = takeaways d @ new)
      \<and> (\<exists>new. eps_forecasts d' = eps_forecasts d @ new))"

definition records :: "jval \<Rightarrow> jval list" where
  "records data = (case data of JArr items \<Rightarrow> items | _ \<Rightarrow> [])"

definition has_timestamp :: "jval \<Rightarrow> bool" where
  "has_timestamp item = (case item of JObj kvs \<Rightarrow> truthy (get kvs ''Timestamp'' JNull) | _ \<Rightarrow> True)"

definition parses :: "env \<Rightarrow> jval \<Rightarrow> bool" where
  "parses E item = (case parse_item E (\<lambda>n. 0) 0 item of Parsed p \<Rightarrow> True | _ \<Rightarrow> False)"

definition settled :: "env \<Rightarrow> store \<Rightarrow> jval \<Rightarrow> bool" where
  "settled E d item =
     (case parse_item E (\<lambda>n. 0) 0 item of
        Skip \<Rightarrow> True
      | Raises e \<Rightarrow> False
      | Parsed p \<Rightarrow> present d (p_ticker p) (p_region p) (p_as_of_ts p))"

section \<open>Properties of the resolver, as predicates on a record\<close>

text \<open>
  The three key patterns, written out: \<open>year_E_key\<close> is 20, two digits, \<open>E_EPS\<close>;
  \<open>year_plain_key\<close> is 20, two digits, \<open>_EPS\<close>; \<open>code_key\<close> is three digits, \<open>_EPS\<close>,
  with the year the code plus 1700. In each the key may end with one newline.
  \<open>resolves kv y\<close>: the key of \<open>kv\<close> is an EPS key of year \<open>y\<close> and its value is not empty.
  \<open>highest item y i\<close>: the \<open>i\<close>-th key resolves to \<open>y\<close> and no key that resolves to \<open>y\<close>
  has a higher priority. \<open>first_highest\<close>: moreover every earlier key that resolves to \<open>y\<close>
  has a strictly lower priority. \<open>eps_inv\<close> is the invariant of the loop.
\<close>

definition year_E_key :: "string \<Rightarrow> nat \<Rightarrow> bool" where
  "year_E_key key y =
     (\<exists>a b. a \<in> set ''0123456789'' \<and> b \<in> set ''0123456789''
        \<and> y = 2000 + 10 * digit_val a + digit_val b
        \<and> (key = ''20'' @ [a, b] @ ''E_EPS'' \<or> key = ''20'' @ [a, b] @ ''E_EPS'' @ [CHR 0x0A]))"

definition year_plain_key :: "string \<Rightarrow> nat \<Rightarrow> bool" where
  "year_plain_key key y =
     (\<exists>a b. a \<in> set ''0123456789'' \<and> b \<in> set ''0123456789''
        \<and> y = 2000 + 10 * digit_val a + digit_val b
        \<and> (key = ''20'' @ [a, b] @ ''_EPS'' \<or> key = ''20'' @ [a, b] @ ''_EPS'' @ [CHR 0x0A]))"

definition code_key :: "string \<Rightarrow> nat \<Rightarrow> bool" where
  "code_key key y =
     (\<exists>a b c. a \<in> set ''0123456789'' \<and> b \<in> set ''0123456789'' \<and> c \<in> set ''0123456789''
        \<and> y = 100 * digit_val a + 10 * digit_val b + digit_val c + 1700
        \<and> (key = [a, b, c] @ ''_EPS'' \<or> key = [a, b, c] @ ''_EPS'' @ [CHR 0x0A]))"

definition resolves :: "string \<times> jval \<Rightarrow> nat \<Rightarrow> bool" where
  "resolves kv y = (extract_eps_year (fst kv) = Some y \<and> \<not> empty_value (snd kv))"

definition highest :: "(string \<times> jval) list \<Rightarrow> nat \<Rightarrow> nat \<Rightarrow> bool" where
  "highest item y i =
     (i < length item \<and> resolves (item ! i) y
      \<and> (\<forall>j < length item. resolves (item ! j) y
            \<longrightarrow> eps_priority (fst (item ! j)) \<le> eps_priority (fst (item ! i))))"

definition first_highest :: "(string \<times> jval) list \<Rightarrow> nat \<Rightarrow> nat \<Rightarrow> bool" where
  "first_highest item y i =
     (highest item y i
      \<and> (\<forall>j < i. resolves (item ! j) y
            \<longrightarrow> eps_priority (fst (item ! j)) < eps_priority (fst (item ! i))))"

definition eps_inv :: "env \<Rightarrow> (string \<times> jval) list \<Rightarrow> eps_acc \<Rightarrow> bool" where
  "eps_inv E xs acc =
     (\<forall>y. case map_of (fst acc) y of
             None \<Rightarrow> map_of (snd acc) y = None \<and> (\<forall>kv \<in> set xs. \<not> resolves kv y)
           | Some d \<Rightarrow>
               (\<exists>i. first_highest xs y i
                  \<and> map_of (snd acc) y = Some (eps_priority (fst (xs ! i)))
                  \<and> to_decimal E (snd (xs ! i)) = Inr (Some d)))"

section \<open>Properties of the analytics, as predicates on a store\<close>

text \<open>
  \<open>qualifying_upsides\<close>: the upsides of the reports of a stock dated at or after \<open>start\<close>.
  \<open>uniq_reports\<close>: the unique constraint of \<open>DailyReport\<close> on (stock, as_of_timestamp).
  \<open>preceding d p r\<close>: \<open>p\<close> is a report of the stock of \<open>r\<close>, earlier than \<open>r\<close>, and no
  earlier report of that stock is later than \<open>p\<close>. \<open>chartable\<close>: the report is one of the
  stock, dated at or after \<open>start_dt\<close>, with a price or a price objective; \<open>chronological\<close>
  lists those reports by increasing instant.
\<close>

definition qualifying_upsides :: "store \<Rightarrow> int \<Rightarrow> stock_row \<Rightarrow> rat set" where
  "qualifying_upsides d start s =
     {u. \<exists>r \<in> set (reports d). stock_id r = stock_pk s \<and> start \<le> as_of_timestamp r
                                  \<and> upside r = Some u}"

definition uniq_reports :: "store \<Rightarrow> bool" where
  "uniq_reports d = distinct (map (\<lambda>r. (stock_id r, as_of_timestamp r)) (reports d))"

definition preceding :: "store \<Rightarrow> report_row \<Rightarrow> report_row \<Rightarrow> bool" where
  "preceding d p r =
     (p \<in> set (reports d) \<and> stock_id p = stock_id r \<and> as_of_timestamp p < as_of_timestamp r
      \<and> (\<forall>q \<in> set (reports d). stock_id q = stock_id r \<and> as_of_timestamp q < as_of_timestamp r
            \<longrightarrow> as_of_timestamp q \<le> as_of_timestamp p))"

definition chartable :: "nat \<Rightarrow> int \<Rightarrow> report_row \<Rightarrow> bool" where
  "chartable sid start_dt r =
     (stock_id r = sid \<and> start_dt \<le> as_of_timestamp r
      \<and> \<not> (price r = None \<and> price_objective r = None))"

definition chronological :: "store \<Rightarrow> nat \<Rightarrow> int \<Rightarrow> report_row list" where
  "chronological d sid start_dt = sort_key as_of_timestamp (filter (chartable sid start_dt) (reports d))"

section \<open>An environment for the examples\<close>

text \<open>
  The library functions at the inputs the examples use. \<open>plain_decimal\<close> reads a sign,
  digits and an optional fraction, as \<open>Decimal\<close> does, and rejects everything else; the
  examples apply it to such literals and to text without digits. The two timestamps are
  given in seconds since 1970 (UTC); any other text is taken as malformed. Every text
  field of the examples is a string, so \<open>py_str\<close> is never consulted.
\<close>

definition plain_decimal :: "string \<Rightarrow> rat option" where
  "plain_decimal s =
     (let neg = (take 1 s = ''-'');
          body = (if take 1 s = ''-'' \<or> take 1 s = ''+'' then drop 1 s else s);
          ip = takeWhile isdigit body;
          rest = dropWhile isdigit body;
          fp = drop 1 rest
      in if (rest = [] \<and> ip \<noteq> [])
            \<or> (take 1 rest = ''.'' \<and> list_all isdigit fp \<and> (ip \<noteq> [] \<or> fp \<noteq> []))
         then Some ((if neg then - 1 else 1)
                    * (of_nat (int_of_digits (ip @ fp)) / of_nat (10 ^ length fp)))
         else None)"

definition example_env :: env where
  "example_env =
     \<lparr>Decimal = plain_decimal,
      strptime = (\<lambda>s. if s = ''2026-01-16_13-48'' then Some 1768571280
                       else if s = ''2026-01-17_09-30'' then Some 1768642200 else None),
      py_str = (\<lambda>v. [])\<rparr>"

definition clock_a :: "nat \<Rightarrow> int" where
  "clock_a n = 1768700000 + int n"

definition clock_b :: "nat \<Rightarrow> int" where
  "clock_b n = 1768800000 + int n"

definition example_files :: "jval list" where
  "example_files =
     [JArr [JObj [(''Ticker'', JStr ''COP US''), (''Timestamp'', JStr ''2026-01-16_13-48''),
                  (''Company'', JStr ''ConocoPhillips''), (''Rating'', JStr ''Buy''),
                  (''Price'', JStr ''101.5''), (''Upside'', JNum 0.2),
                  (''Key_Takeaways'', JArr [JStr ''a'', JStr [], JStr ''b'']),
                  (''2027E_EPS'', JNum 1.1), (''2027_EPS'', JNum 1.0), (''327_EPS'', JNum 0.9)],
            JObj [(''Ticker'', JStr '' cop  us ''), (''Timestamp'', JStr ''2026-01-16_13-48''),
                  (''Company'', JStr ''Other name''), (''Currency'', JStr ''eur'')],
            JObj [(''Ticker'', JStr ''COP''), (''Timestamp'', JStr ''2026-01-16_13-48'')],
            JObj [(''Ticker'', JStr ''XOM US''), (''Timestamp'', JStr ''2026-01-17_09-30''),
                  (''Rating'', JStr ''not rated'')]]]"

definition no_timestamp_files :: "jval list" where
  "no_timestamp_files =
     [JArr [JObj [(''Ticker'', JStr ''COP US''), (''Price'', JStr ''101.5'')]]]"

definition bad_price_files :: "jval list" where
  "bad_price_files =
     [JArr [JObj [(''Ticker'', JStr ''COP US''), (''Timestamp'', JStr ''2026-01-16_13-48''),
                  (''Price'', JStr ''abc'')],
            JObj [(''Ticker'', JStr ''XOM US''), (''Timestamp'', JStr ''2026-01-17_09-30''),
                  (''Price'', JStr ''101.5'')]]]"

definition bad_eps_files :: "jval list" where
  "bad_eps_files =
     [JArr [JObj [(''Ticker'', JStr ''COP US''), (''Timestamp'', JStr ''2026-01-16_13-48''),
                  (''2027E_EPS'', JStr ''n/a'')],
            JObj [(''Ticker'', JStr ''XOM US''), (''Timestamp'', JStr ''2026-01-17_09-30''),
                  (''Price'', JStr ''101.5'')]]]"

definition takeaway_files :: "jval list" where
  "takeaway_files =
     [JArr [JObj [(''Ticker'', JStr ''COP US''), (''Timestamp'', JStr ''2026-01-16_13-48''),
                  (''Key_Takeaways'', JArr [JStr ''a'', JStr [], JStr ''b''])]]]"

definition initial_run :: "store \<Rightarrow> run" where
  "initial_run d =
     \<lparr>db = d, ticks = 0, total_reports = 0, created_reports = 0, skipped_reports = 0\<rparr>"

definition conoco :: stock_row where
  "conoco = \<lparr>stock_pk = 1, ticker = ''COP'', region = ''US'', company_name = ''Conoco'',
              currency_code = ''USD''\<rparr>"

definition one_stock_store :: store where
  "one_stock_store = \<lparr>stocks = [conoco], reports = [], takeaways = [], eps_forecasts = []\<rparr>"

definition example_first_run :: run where
  "example_first_run =
     (case handle example_env clock_a False example_files empty_store of
        Completed st \<Rightarrow> st
      | Raised e d \<Rightarrow> initial_run d)"

definition report_at ::
  "nat \<Rightarrow> nat \<Rightarrow> int \<Rightarrow> string \<Rightarrow> rat option \<Rightarrow> rat option \<Rightarrow> rat option \<Rightarrow> report_row" where
  "report_at pk sid ts rat p po u =
     \<lparr>report_pk = pk, stock_id = sid, link = [], as_of_timestamp = ts, created_at = ts,
      blurb = [], rating = rat, analyst_team = [], report_subtitle = [], raw_text = JArr [],
      price = p, price_objective = po, upside = u, average_daily_value = None,
      market_cap = None\<rparr>"

definition stock_a :: stock_row where
  "stock_a = \<lparr>stock_pk = 1, ticker = ''AAA'', region = ''US'', company_name = ''A'', currency_code = ''USD''\<rparr>"

definition stock_b :: stock_row where
  "stock_b = \<lparr>stock_pk = 2, ticker = ''BBB'', region = ''US'', company_name = ''B'', currency_code = ''USD''\<rparr>"

definition now0 :: int where "now0 = 1768700000"

definition upside_store :: store where
  "upside_store =
     \<lparr>stocks = [stock_a, stock_b],
      reports = [report_at 1 1 (now0 - days 2) ''BUY'' None None (Some 0.05),
                 report_at 2 1 (now0 - days 1) ''BUY'' None None (Some 0.20),
                 report_at 3 2 (now0 - days 10) ''BUY'' None None (Some 0.30)],
      takeaways = [], eps_forecasts = []\<rparr>"

definition future_store :: store where
  "future_store =
     \<lparr>stocks = [stock_a],
      reports = [report_at 1 1 (now0 + days 1) ''BUY'' None None (Some 0.5)],
      takeaways = [], eps_forecasts = []\<rparr>"

definition downgrade_store :: store where
  "downgrade_store =
     \<lparr>stocks = [stock_a, stock_b],
      reports = [report_at 1 1 (now0 - days 3) ''BUY'' None None None,
                 report_at 2 1 (now0 - days 2) ''UNDERPERFORM'' None None None,
                 report_at 3 2 (now0 - days 3) ''UNDERPERFORM'' None None None,
                 report_at 4 2 (now0 - days 1) ''UNDERPERFORM'' None None None],
      takeaways = [], eps_forecasts = []\<rparr>"

text \<open>A hundred chartable reports of one stock, an hour apart and stored latest first,
  after one report without price and price objective and one dated before the start.\<close>

definition chart_store :: store where
  "chart_store =
     \<lparr>stocks = [stock_a],
      reports = report_at 200 1 (now0 - 1800) ''BUY'' None None (Some 0.1)
                # report_at 201 1 (now0 - days 40) ''BUY'' (Some 9) (Some 10) None
                # map (\<lambda>i. report_at i 1 (now0 - 3600 * int i) ''BUY'' (Some (of_nat i)) None None)
                    [0..<100],
      takeaways = [], eps_forecasts = []\<rparr>"

definition future_chart_store :: store where
  "future_chart_store =
     \<lparr>stocks = [stock_a],
      reports = [report_at 1 1 (now0 + days 1) ''BUY'' (Some 10) (Some 12) None],
      takeaways = [], eps_forecasts = []\<rparr>"

section \<open>The resolver keeps the first key of highest priority\<close>

lemma to_decimal_None: "to_decimal E v = Inr None \<Longrightarrow> empty_value v"
  by (cases v) (auto simp: empty_value_def split: if_splits option.splits)

lemma first_highest_keep:
  assumes "first_highest xs y i"
    and "resolves kv y \<Longrightarrow> eps_priority (fst kv) \<le> eps_priority (fst (xs ! i))"
  shows "first_highest (xs @ [kv]) y i"
  using assms
  by (auto simp: first_highest_def highest_def nth_append less_Suc_eq)

lemma first_highest_new:
  assumes "resolves kv y"
    and "\<And>j. j < length xs \<Longrightarrow> resolves (xs ! j) y
            \<Longrightarrow> eps_priority (fst (xs ! j)) < eps_priority (fst kv)"
  shows "first_highest (xs @ [kv]) y (length xs)"
  using assms
  by (auto simp: first_highest_def highest_def nth_append less_Suc_eq dest!: assms(2))

lemma first_highest_bound:
  "first_highest xs y i \<Longrightarrow> j < length xs \<Longrightarrow> resolves (xs ! j) y
     \<Longrightarrow> eps_priority (fst (xs ! j)) \<le> eps_priority (fst (xs ! i))"
  by (simp add: first_highest_def highest_def)

lemma resolves_unique: "resolves kv y \<Longrightarrow> resolves kv y' \<Longrightarrow> y = y'"
  by (simp add: resolves_def)

lemma eps_inv_same:
  assumes inv: "eps_inv E xs acc" and nores: "\<And>y. resolves kv y \<Longrightarrow>
     (\<exists>i. first_highest xs y i \<and> map_of (snd acc) y = Some (eps_priority (fst (xs ! i)))
         \<and> eps_priority (fst kv) \<le> eps_priority (fst (xs ! i)))"
  shows "eps_inv E (xs @ [kv]) acc"
  unfolding eps_inv_def
proof
  fix y
  show "case map_of (fst acc) y of
          None \<Rightarrow> map_of (snd acc) y = None \<and> (\<forall>kv' \<in> set (xs @ [kv]). \<not> resolves kv' y)
        | Some d \<Rightarrow>
            (\<exists>i. first_highest (xs @ [kv]) y i
               \<and> map_of (snd acc) y = Some (eps_priority (fst ((xs @ [kv]) ! i)))
               \<and> to_decimal E (snd ((xs @ [kv]) ! i)) = Inr (Some d))"
  proof (cases "map_of (fst acc) y")
    case None
    with inv have a: "map_of (snd acc) y = None" and b: "\<forall>kv' \<in> set xs. \<not> resolves kv' y"
      by (auto simp: eps_inv_def split: option.splits dest: spec[where x=y])
    have "\<not> resolves kv y"
      using nores[of y] a by auto
    with None a b show ?thesis by simp
  next
    case (Some d)
    with inv obtain i where i: "first_highest xs y i"
        "map_of (snd acc) y = Some (eps_priority (fst (xs ! i)))"
        "to_decimal E (snd (xs ! i)) = Inr (Some d)"
      by (auto simp: eps_inv_def split: option.splits dest!: spec[where x=y])
    have le: "resolves kv y \<Longrightarrow> eps_priority (fst kv) \<le> eps_priority (fst (xs ! i))"
      using nores[of y] i(2) by auto
    have il: "i < length xs" using i(1) by (simp add: first_highest_def highest_def)
    have "first_highest (xs @ [kv]) y i"
      using first_highest_keep[OF i(1) le] .
    with i il Some show ?thesis by (auto simp: nth_append)
  qed
qed

lemma eps_inv_update:
  assumes inv: "eps_inv E xs (byy, pr)" and res: "resolves (k, v) y0"
    and dec: "to_decimal E v = Inr (Some d0)"
    and better: "\<And>j. j < length xs \<Longrightarrow> resolves (xs ! j) y0
            \<Longrightarrow> eps_priority (fst (xs ! j)) < eps_priority k"
  shows "eps_inv E (xs @ [(k, v)])
           (AList.update y0 d0 byy, AList.update y0 (eps_priority k) pr)"
  unfolding eps_inv_def
proof
  fix y
  let ?acc = "(AList.update y0 d0 byy, AList.update y0 (eps_priority k) pr)"
  let ?xs = "xs @ [(k, v)]"
  show "case map_of (fst ?acc) y of
          None \<Rightarrow> map_of (snd ?acc) y = None \<and> (\<forall>kv' \<in> set ?xs. \<not> resolves kv' y)
        | Some d \<Rightarrow>
            (\<exists>i. first_highest ?xs y i
               \<and> map_of (snd ?acc) y = Some (eps_priority (fst (?xs ! i)))
               \<and> to_decimal E (snd (?xs ! i)) = Inr (Some d))"
  proof (cases "y = y0")
    case True
    have "first_highest ?xs y0 (length xs)"
      using first_highest_new[OF res] better by auto
    with True dec show ?thesis
      by (auto simp: update_conv intro!: exI[where x="length xs"])
  next
    case False
    have nres: "\<not> resolves (k, v) y"
      using res False resolves_unique by blast
    show ?thesis
    proof (cases "map_of byy y")
      case None
      with inv have "map_of pr y = None" "\<forall>kv' \<in> set xs. \<not> resolves kv' y"
        by (auto simp: eps_inv_def split: option.splits dest: spec[where x=y])
      with None False nres show ?thesis by (simp add: update_conv)
    next
      case (Some d)
      with inv obtain i where i: "first_highest xs y i"
          "map_of pr y = Some (eps_priority (fst (xs ! i)))"
          "to_decimal E (snd (xs ! i)) = Inr (Some d)"
        by (auto simp: eps_inv_def split: option.splits dest!: spec[where x=y])
      have il: "i < length xs" using i(1) by (simp add: first_highest_def highest_def)
      have "first_highest ?xs y i"
        using first_highest_keep[OF i(1)] nres by blast
      with i il Some False show ?thesis
        by (auto simp: update_conv nth_append)
    qed
  qed
qed

lemma eps_inv_step:
  assumes inv: "eps_inv E xs acc" and step: "eps_step E kv acc = Inr acc'"
  shows "eps_inv E (xs @ [kv]) acc'"
proof -
  obtain k v where kv: "kv = (k, v)" by (cases kv)
  obtain byy pr where acc: "acc = (byy, pr)" by (cases acc)
  show ?thesis
  proof (cases "extract_eps_year k")
    case None
    then have "acc' = acc" using step kv acc by simp
    moreover have "\<And>y. \<not> resolves kv y" using None kv by (simp add: resolves_def)
    ultimately show ?thesis using eps_inv_same[OF inv] by blast
  next
    case (Some y0)
    show ?thesis
    proof (cases "empty_value v")
      case True
      then have "acc' = acc" using step kv acc Some by simp
      moreover have "\<And>y. \<not> resolves kv y" using True kv by (simp add: resolves_def)
      ultimately show ?thesis using eps_inv_same[OF inv] by blast
    next
      case False
      have res: "resolves (k, v) y0" using Some False by (simp add: resolves_def)
      show ?thesis
      proof (cases "map_of byy y0")
        case None
        with inv acc have nores: "\<forall>kv' \<in> set xs. \<not> resolves kv' y0"
          by (auto simp: eps_inv_def split: option.splits dest: spec[where x=y0])
        from step kv acc Some False None
        obtain d0 where dec: "to_decimal E v = Inr (Some d0)"
          and acc': "acc' = (AList.update y0 d0 byy, AList.update y0 (eps_priority k) pr)"
          using to_decimal_None[of E v]
          by (auto simp: Let_def split: sum.splits option.splits)
        have "\<And>j. j < length xs \<Longrightarrow> resolves (xs ! j) y0
                \<Longrightarrow> eps_priority (fst (xs ! j)) < eps_priority k"
          using nores by (meson nth_mem)
        from eps_inv_update[OF inv[unfolded acc] res dec this] show ?thesis
          by (simp add: acc' kv)
      next
        case (Some d)
        with inv acc obtain i where i: "first_highest xs y0 i"
            "map_of pr y0 = Some (eps_priority (fst (xs ! i)))"
            "to_decimal E (snd (xs ! i)) = Inr (Some d)"
          by (auto simp: eps_inv_def split: option.splits dest!: spec[where x=y0])
        show ?thesis
        proof (cases "eps_priority k > eps_priority (fst (xs ! i))")
          case True
          from step kv acc \<open>extract_eps_year k = Some y0\<close> False Some i(2) True
          obtain d0 where dec: "to_decimal E v = Inr (Some d0)"
            and acc': "acc' = (AList.update y0 d0 byy, AList.update y0 (eps_priority k) pr)"
            using to_decimal_None[of E v]
            by (auto simp: Let_def split: sum.splits option.splits)
          have "\<And>j. j < length xs \<Longrightarrow> resolves (xs ! j) y0
                  \<Longrightarrow> eps_priority (fst (xs ! j)) < eps_priority k"
            using first_highest_bound[OF i(1)] True by fastforce
          from eps_inv_update[OF inv[unfolded acc] res dec this] show ?thesis
            by (simp add: acc' kv)
        next
          case nb: False
          from step kv acc \<open>extract_eps_year k = Some y0\<close> False Some i(2) nb
          have "acc' = acc" by (auto simp: Let_def)
          moreover have "\<And>y. resolves kv y \<Longrightarrow>
             (\<exists>i. first_highest xs y i \<and> map_of (snd acc) y = Some (eps_priority (fst (xs ! i)))
               \<and> eps_priority (fst kv) \<le> eps_priority (fst (xs ! i)))"
            using i nb res kv acc resolves_unique by (metis fst_conv snd_conv not_le_imp_less)
          ultimately show ?thesis using eps_inv_same[OF inv] by blast
        qed
      qed
    qed
  qed
qed

lemma eps_inv_loop:
  "eps_inv E xs acc \<Longrightarrow> eps_loop E ys acc = Inr acc' \<Longrightarrow> eps_inv E (xs @ ys) acc'"
proof (induction ys arbitrary: xs acc)
  case Nil
  then show ?case by simp
next
  case (Cons kv ys)
  from Cons.prems(2) obtain acc1 where s: "eps_step E kv acc = Inr acc1"
    and l: "eps_loop E ys acc1 = Inr acc'"
    by (auto split: sum.splits)
  from Cons.IH[OF eps_inv_step[OF Cons.prems(1) s] l] show ?case by simp
qed

lemma eps_inv_init: "eps_inv E [] ([], [])"
  by (simp add: eps_inv_def)

lemma eps_step_distinct:
  "eps_step E kv acc = Inr acc' \<Longrightarrow> distinct (map fst (fst acc)) \<Longrightarrow> distinct (map fst (fst acc'))"
  by (cases kv; cases acc) (auto simp: Let_def distinct_update split: option.splits sum.splits if_splits bool.splits)

lemma eps_loop_distinct:
  "eps_loop E ys acc = Inr acc' \<Longrightarrow> distinct (map fst (fst acc)) \<Longrightarrow> distinct (map fst (fst acc'))"
proof (induction ys arbitrary: acc)
  case Nil
  then show ?case by simp
next
  case (Cons kv ys)
  then show ?case by (auto split: sum.splits dest: eps_step_distinct)
qed

lemma sorted_lex_fst: "sorted (xs :: ('a::linorder \<times> 'b::linorder) list) \<Longrightarrow> sorted (map fst xs)"
  by (induction xs) (auto simp: less_eq_prod_def)

lemma sort_rows_strict:
  assumes "distinct (map fst (xs :: (nat \<times> rat) list))"
  shows "sorted_wrt (<) (map fst (sort xs))"
proof -
  have "sorted (map fst (sort xs))" by (rule sorted_lex_fst) simp
  moreover have "distinct (map fst (sort xs))"
    using assms by (simp add: distinct_map)
  ultimately show ?thesis by (simp add: strict_sorted_iff)
qed


lemma isdigit_iff: "isdigit c \<longleftrightarrow> c \<in> set ''0123456789''"
proof
  assume "isdigit c"
  then have r: "48 \<le> (of_char c :: nat)" "(of_char c :: nat) \<le> 57"
    by (simp_all add: isdigit_def Let_def)
  define n where "n = (of_char c :: nat)"
  have c: "c = char_of n" by (simp add: n_def)
  from r have "n = 48 \<or> n = 49 \<or> n = 50 \<or> n = 51 \<or> n = 52 \<or> n = 53 \<or> n = 54
      \<or> n = 55 \<or> n = 56 \<or> n = 57"
    unfolding n_def by arith
  then have "char_of n \<in> set ''0123456789''"
    by (elim disjE) (simp_all, code_simp+)
  with c show "c \<in> set ''0123456789''" by simp
next
  assume "c \<in> set ''0123456789''"
  then show "isdigit c" by (auto simp: isdigit_def)
qed

lemma split_prefix:
  assumes "take n r = p"
  shows "r = p @ drop n r"
proof -
  have "r = take n r @ drop n r" by simp
  also have "\<dots> = p @ drop n r" using assms by simp
  finally show ?thesis .
qed

lemma tail_E: "take 5 r = ''E_EPS'' \<and> dollar (drop 5 r) \<longleftrightarrow> r = ''E_EPS'' \<or> r = ''E_EPS'' @ [CHR 0x0A]"
proof
  assume a: "take 5 r = ''E_EPS'' \<and> dollar (drop 5 r)"
  then have k: "r = ''E_EPS'' @ drop 5 r" using split_prefix[of 5 r] by blast
  from a consider "drop 5 r = []" | "drop 5 r = [CHR 0x0A]" by (auto simp: dollar_def)
  then show "r = ''E_EPS'' \<or> r = ''E_EPS'' @ [CHR 0x0A]"
  proof cases
    case 1
    with k show ?thesis by simp
  next
    case 2
    with k show ?thesis by simp
  qed
next
  assume "r = ''E_EPS'' \<or> r = ''E_EPS'' @ [CHR 0x0A]"
  then show "take 5 r = ''E_EPS'' \<and> dollar (drop 5 r)" by (auto simp: dollar_def)
qed

lemma tail_plain: "take 4 r = ''_EPS'' \<and> dollar (drop 4 r) \<longleftrightarrow> r = ''_EPS'' \<or> r = ''_EPS'' @ [CHR 0x0A]"
proof
  assume a: "take 4 r = ''_EPS'' \<and> dollar (drop 4 r)"
  then have k: "r = ''_EPS'' @ drop 4 r" using split_prefix[of 4 r] by blast
  from a consider "drop 4 r = []" | "drop 4 r = [CHR 0x0A]" by (auto simp: dollar_def)
  then show "r = ''_EPS'' \<or> r = ''_EPS'' @ [CHR 0x0A]"
  proof cases
    case 1
    with k show ?thesis by simp
  next
    case 2
    with k show ?thesis by simp
  qed
next
  assume "r = ''_EPS'' \<or> r = ''_EPS'' @ [CHR 0x0A]"
  then show "take 4 r = ''_EPS'' \<and> dollar (drop 4 r)" by (auto simp: dollar_def)
qed

lemma year_head:
  "take 2 key = ''20'' \<and> 4 \<le> length key \<longleftrightarrow> (\<exists>a b r. key = ''20'' @ [a, b] @ r)"
proof
  assume a: "take 2 key = ''20'' \<and> 4 \<le> length key"
  then have k: "key = ''20'' @ drop 2 key" using split_prefix[of 2 key] by blast
  from a have "4 \<le> length key" by blast
  then have "2 \<le> length (drop 2 key)" by simp
  then obtain a b r where "drop 2 key = a # b # r"
    by (cases "drop 2 key"; cases "tl (drop 2 key)") auto
  with k have "key = ''20'' @ [a, b] @ r" by simp
  then show "\<exists>a b r. key = ''20'' @ [a, b] @ r" by blast
next
  assume "\<exists>a b r. key = ''20'' @ [a, b] @ r"
  then show "take 2 key = ''20'' \<and> 4 \<le> length key" by auto
qed

lemma code_head: "3 \<le> length key \<longleftrightarrow> (\<exists>a b c r. key = [a, b, c] @ r)"
proof
  assume "3 \<le> length key"
  then obtain a b c r where "key = a # b # c # r"
    by (cases key; cases "tl key"; cases "tl (tl key)") auto
  then show "\<exists>a b c r. key = [a, b, c] @ r" by auto
qed auto

lemma year_E_re_iff:
  "(take 2 key = ''20'' \<and> 4 \<le> length key \<and> isdigit (key ! 2) \<and> isdigit (key ! 3)
         \<and> take 5 (drop 4 key) = ''E_EPS'' \<and> dollar (drop 9 key))
   \<longleftrightarrow> (\<exists>a b. isdigit a \<and> isdigit b
          \<and> (key = ''20'' @ [a, b] @ ''E_EPS'' \<or> key = ''20'' @ [a, b] @ ''E_EPS'' @ [CHR 0x0A]))"
  (is "?L \<longleftrightarrow> ?R")
proof
  assume L: ?L
  then obtain a b r where k: "key = ''20'' @ [a, b] @ r" using year_head[of key] by blast
  with L have "isdigit a" "isdigit b" "take 5 r = ''E_EPS'' \<and> dollar (drop 5 r)" by auto
  with k tail_E[of r] show ?R by auto
next
  assume ?R
  then show ?L by (auto simp: dollar_def)
qed

lemma year_plain_re_iff:
  "(take 2 key = ''20'' \<and> 4 \<le> length key \<and> isdigit (key ! 2) \<and> isdigit (key ! 3)
         \<and> take 4 (drop 4 key) = ''_EPS'' \<and> dollar (drop 8 key))
   \<longleftrightarrow> (\<exists>a b. isdigit a \<and> isdigit b
          \<and> (key = ''20'' @ [a, b] @ ''_EPS'' \<or> key = ''20'' @ [a, b] @ ''_EPS'' @ [CHR 0x0A]))"
  (is "?L \<longleftrightarrow> ?R")
proof
  assume L: ?L
  then obtain a b r where k: "key = ''20'' @ [a, b] @ r" using year_head[of key] by blast
  with L have "isdigit a" "isdigit b" "take 4 r = ''_EPS'' \<and> dollar (drop 4 r)" by auto
  with k tail_plain[of r] show ?R by auto
next
  assume ?R
  then show ?L by (auto simp: dollar_def)
qed

lemma code_re_iff:
  "(3 \<le> length key \<and> isdigit (key ! 0) \<and> isdigit (key ! 1) \<and> isdigit (key ! 2)
         \<and> take 4 (drop 3 key) = ''_EPS'' \<and> dollar (drop 7 key))
   \<longleftrightarrow> (\<exists>a b c. isdigit a \<and> isdigit b \<and> isdigit c
          \<and> (key = [a, b, c] @ ''_EPS'' \<or> key = [a, b, c] @ ''_EPS'' @ [CHR 0x0A]))"
  (is "?L \<longleftrightarrow> ?R")
proof
  assume L: ?L
  then obtain a b c r where k: "key = [a, b, c] @ r" using code_head[of key] by blast
  with L have "isdigit a" "isdigit b" "isdigit c" "take 4 r = ''_EPS'' \<and> dollar (drop 4 r)" by auto
  with k tail_plain[of r] show ?R by auto
next
  assume ?R
  then show ?L by (auto simp: dollar_def)
qed


lemma year_value: "int_of_digits (''20'' @ [a, b]) = 2000 + 10 * digit_val a + digit_val b"
  by (simp add: int_of_digits_def digit_val_def)

lemma code_value: "int_of_digits [a, b, c] = 100 * digit_val a + 10 * digit_val b + digit_val c"
  by (simp add: int_of_digits_def)

lemma year_E_form:
  assumes "isdigit a" "isdigit b" "n = [] \<or> n = [CHR 0x0A]"
  shows "extract_eps_year (''20'' @ [a, b] @ ''E_EPS'' @ n) = Some (2000 + 10 * digit_val a + digit_val b)
       \<and> eps_priority (''20'' @ [a, b] @ ''E_EPS'' @ n) = 3"
  using assms
  by (auto simp: extract_eps_year_def EPS_YEAR_RE_def eps_priority_def dollar_def
        int_of_digits_def digit_val_def)

lemma year_plain_form:
  assumes "isdigit a" "isdigit b" "n = [] \<or> n = [CHR 0x0A]"
  shows "extract_eps_year (''20'' @ [a, b] @ ''_EPS'' @ n) = Some (2000 + 10 * digit_val a + digit_val b)
       \<and> eps_priority (''20'' @ [a, b] @ ''_EPS'' @ n) = 2"
  using assms
  by (auto simp: extract_eps_year_def EPS_YEAR_RE_def eps_priority_def dollar_def
        int_of_digits_def digit_val_def)

lemma code_form:
  assumes "isdigit a" "isdigit b" "isdigit c" "n = [] \<or> n = [CHR 0x0A]"
  shows "extract_eps_year ([a, b, c] @ ''_EPS'' @ n)
           = Some (100 * digit_val a + 10 * digit_val b + digit_val c + 1700)
       \<and> eps_priority ([a, b, c] @ ''_EPS'' @ n) = 1"
  using assms
  by (auto simp: extract_eps_year_def EPS_YEAR_RE_def EPS_CODE_RE_def eps_priority_def dollar_def
        int_of_digits_def digit_val_def isdigit_def)

lemma year_E_key_resolves:
  assumes "year_E_key key y"
  shows "extract_eps_year key = Some y \<and> eps_priority key = 3"
proof -
  from assms obtain a b n where "isdigit a" "isdigit b" "n = [] \<or> n = [CHR 0x0A]"
    "y = 2000 + 10 * digit_val a + digit_val b" "key = ''20'' @ [a, b] @ ''E_EPS'' @ n"
    unfolding year_E_key_def isdigit_iff[symmetric] by fastforce
  with year_E_form[of a b n] show ?thesis by simp
qed

lemma year_plain_key_resolves:
  assumes "year_plain_key key y"
  shows "extract_eps_year key = Some y \<and> eps_priority key = 2"
proof -
  from assms obtain a b n where "isdigit a" "isdigit b" "n = [] \<or> n = [CHR 0x0A]"
    "y = 2000 + 10 * digit_val a + digit_val b" "key = ''20'' @ [a, b] @ ''_EPS'' @ n"
    unfolding year_plain_key_def isdigit_iff[symmetric] by fastforce
  with year_plain_form[of a b n] show ?thesis by simp
qed

lemma code_key_resolves:
  assumes "code_key key y"
  shows "extract_eps_year key = Some y \<and> eps_priority key = 1"
proof -
  from assms obtain a b c n where "isdigit a" "isdigit b" "isdigit c" "n = [] \<or> n = [CHR 0x0A]"
    "y = 100 * digit_val a + 10 * digit_val b + digit_val c + 1700" "key = [a, b, c] @ ''_EPS'' @ n"
    unfolding code_key_def isdigit_iff[symmetric] by fastforce
  with code_form[of a b c n] show ?thesis by simp
qed

lemma extract_eps_year_forms:
  assumes "extract_eps_year key = Some y"
  shows "year_E_key key y \<or> year_plain_key key y \<or> code_key key y"
proof (cases "EPS_YEAR_RE key")
  case (Some yr)
  then have yr: "yr = take 4 key"
    and c: "(take 2 key = ''20'' \<and> 4 \<le> length key \<and> isdigit (key ! 2) \<and> isdigit (key ! 3)
               \<and> take 5 (drop 4 key) = ''E_EPS'' \<and> dollar (drop 9 key))
          \<or> (take 2 key = ''20'' \<and> 4 \<le> length key \<and> isdigit (key ! 2) \<and> isdigit (key ! 3)
               \<and> take 4 (drop 4 key) = ''_EPS'' \<and> dollar (drop 8 key))"
    unfolding EPS_YEAR_RE_def by (auto split: if_splits)
  from assms Some yr have y: "y = int_of_digits (take 4 key)"
    by (simp add: extract_eps_year_def)
  from c show ?thesis
  proof
    assume "take 2 key = ''20'' \<and> 4 \<le> length key \<and> isdigit (key ! 2) \<and> isdigit (key ! 3)
               \<and> take 5 (drop 4 key) = ''E_EPS'' \<and> dollar (drop 9 key)"
    then obtain a b where d: "isdigit a" "isdigit b"
      and k: "key = ''20'' @ [a, b] @ ''E_EPS'' \<or> key = ''20'' @ [a, b] @ ''E_EPS'' @ [CHR 0x0A]"
      using year_E_re_iff[of key] by blast
    from k have "take 4 key = ''20'' @ [a, b]" by auto
    with y have "y = 2000 + 10 * digit_val a + digit_val b" by (simp only: year_value)
    with d k have "year_E_key key y" unfolding year_E_key_def isdigit_iff by blast
    then show ?thesis by blast
  next
    assume "take 2 key = ''20'' \<and> 4 \<le> length key \<and> isdigit (key ! 2) \<and> isdigit (key ! 3)
               \<and> take 4 (drop 4 key) = ''_EPS'' \<and> dollar (drop 8 key)"
    then obtain a b where d: "isdigit a" "isdigit b"
      and k: "key = ''20'' @ [a, b] @ ''_EPS'' \<or> key = ''20'' @ [a, b] @ ''_EPS'' @ [CHR 0x0A]"
      using year_plain_re_iff[of key] by blast
    from k have "take 4 key = ''20'' @ [a, b]" by auto
    with y have "y = 2000 + 10 * digit_val a + digit_val b" by (simp only: year_value)
    with d k have "year_plain_key key y" unfolding year_plain_key_def isdigit_iff by blast
    then show ?thesis by blast
  qed
next
  case None
  with assms obtain code where co: "EPS_CODE_RE key = Some code" and y: "y = int_of_digits code + 1700"
    by (auto simp: extract_eps_year_def split: option.splits)
  then have code: "code = take 3 key"
    and c: "3 \<le> length key \<and> isdigit (key ! 0) \<and> isdigit (key ! 1) \<and> isdigit (key ! 2)
         \<and> take 4 (drop 3 key) = ''_EPS'' \<and> dollar (drop 7 key)"
    unfolding EPS_CODE_RE_def by (auto split: if_splits)
  then obtain a b c where d: "isdigit a" "isdigit b" "isdigit c"
    and k: "key = [a, b, c] @ ''_EPS'' \<or> key = [a, b, c] @ ''_EPS'' @ [CHR 0x0A]"
    using code_re_iff[of key] by blast
  from k have "take 3 key = [a, b, c]" by auto
  with y code have "y = 100 * digit_val a + 10 * digit_val b + digit_val c + 1700"
    by (simp only: code_value)
  with d k have "code_key key y" unfolding code_key_def isdigit_iff by blast
  then show ?thesis by blast
qed

lemma extract_eps_year_iff:
  "extract_eps_year key = Some y \<longleftrightarrow> year_E_key key y \<or> year_plain_key key y \<or> code_key key y"
  using extract_eps_year_forms year_E_key_resolves year_plain_key_resolves code_key_resolves
  by blast

lemma eps_priority_zero:
  assumes "extract_eps_year key = None"
  shows "eps_priority key = 0"
  using assms
  by (auto simp: extract_eps_year_def EPS_YEAR_RE_def EPS_CODE_RE_def eps_priority_def
           split: option.splits if_splits)

lemma eps_priority_iff:
  "(eps_priority key = 3 \<longleftrightarrow> (\<exists>y. year_E_key key y))
   \<and> (eps_priority key = 2 \<longleftrightarrow> (\<exists>y. year_plain_key key y))
   \<and> (eps_priority key = 1 \<longleftrightarrow> (\<exists>y. code_key key y))
   \<and> (eps_priority key = 0 \<longleftrightarrow> extract_eps_year key = None)"
proof (cases "extract_eps_year key")
  case None
  then have "\<not> (\<exists>y. year_E_key key y)" "\<not> (\<exists>y. year_plain_key key y)" "\<not> (\<exists>y. code_key key y)"
    using extract_eps_year_iff[of key] by auto
  with None eps_priority_zero[OF None] show ?thesis by simp
next
  case (Some y)
  then consider "year_E_key key y" | "year_plain_key key y" | "code_key key y"
    using extract_eps_year_iff by blast
  then show ?thesis
  proof cases
    case 1
    from year_E_key_resolves[OF 1] have p: "eps_priority key = 3" by simp
    have "\<not> year_plain_key key y'" "\<not> code_key key y'" for y'
      using year_plain_key_resolves[of key y'] code_key_resolves[of key y'] p by auto
    with 1 p Some show ?thesis by auto
  next
    case 2
    from year_plain_key_resolves[OF 2] have p: "eps_priority key = 2" by simp
    have "\<not> year_E_key key y'" "\<not> code_key key y'" for y'
      using year_E_key_resolves[of key y'] code_key_resolves[of key y'] p by auto
    with 2 p Some show ?thesis by auto
  next
    case 3
    from code_key_resolves[OF 3] have p: "eps_priority key = 1" by simp
    have "\<not> year_E_key key y'" "\<not> year_plain_key key y'" for y'
      using year_E_key_resolves[of key y'] year_plain_key_resolves[of key y'] p by auto
    with 3 p Some show ?thesis by auto
  qed
qed

lemma eps_step_total:
  assumes inv: "eps_inv E xs acc"
    and ok: "(\<exists>y. resolves kv y) \<Longrightarrow> to_decimal E (snd kv) \<noteq> Inl InvalidOperation"
  shows "\<exists>acc'. eps_step E kv acc = Inr acc'"
proof -
  obtain k v where kv: "kv = (k, v)" by (cases kv)
  obtain byy pr where acc: "acc = (byy, pr)" by (cases acc)
  show ?thesis
  proof (cases "\<exists>y. resolves kv y")
    case False
    then have "extract_eps_year k = None \<or> empty_value v"
      using kv by (auto simp: resolves_def)
    then show ?thesis using kv acc by (auto split: option.splits)
  next
    case True
    have dec: "\<exists>r. to_decimal E v = Inr r"
      using ok[OF True] kv by (cases v) (auto split: option.splits if_splits)
    have key: "\<forall>y. map_of pr y = None \<longrightarrow> map_of byy y = None"
    proof (intro allI impI)
      fix y assume "map_of pr y = None"
      with inv acc show "map_of byy y = None"
        by (cases "map_of byy y") (auto simp: eps_inv_def split: option.splits dest!: spec[where x=y])
    qed
    show ?thesis
      using dec key kv acc
      by (auto simp: Let_def split: option.splits sum.splits bool.splits)
  qed
qed

lemma eps_loop_total:
  "eps_inv E xs acc
     \<Longrightarrow> \<forall>kv \<in> set ys. (\<exists>y. resolves kv y) \<longrightarrow> to_decimal E (snd kv) \<noteq> Inl InvalidOperation
     \<Longrightarrow> \<exists>acc'. eps_loop E ys acc = Inr acc'"
proof (induction ys arbitrary: xs acc)
  case Nil
  then show ?case by simp
next
  case (Cons kv ys)
  then obtain acc1 where s: "eps_step E kv acc = Inr acc1"
    using eps_step_total[of E xs acc kv] by auto
  from Cons.IH[OF eps_inv_step[OF Cons.prems(1) s]] Cons.prems(2) s show ?case by auto
qed

lemma eps_rows_characterised:
  assumes "eps_rows E item = Inr rows"
  shows "sorted_wrt (<) (map fst rows)"
    and "(y, d) \<in> set rows \<Longrightarrow> \<exists>i. first_highest item y i \<and> to_decimal E (snd (item ! i)) = Inr (Some d)"
    and "y \<in> fst ` set rows \<longleftrightarrow> (\<exists>kv \<in> set item. resolves kv y)"
proof -
  from assms obtain byy pr where loop: "eps_loop E item ([], []) = Inr (byy, pr)"
    and rows: "rows = sort byy"
    by (auto simp: eps_rows_def split: sum.splits)
  have inv: "eps_inv E item (byy, pr)"
    using eps_inv_loop[OF eps_inv_init loop] by simp
  have dist: "distinct (map fst byy)"
    using eps_loop_distinct[OF loop] by simp
  show "sorted_wrt (<) (map fst rows)"
    using sort_rows_strict[OF dist] rows by simp
  { assume "(y, d) \<in> set rows"
    then have "map_of byy y = Some d" using rows dist by simp
    with inv show "\<exists>i. first_highest item y i \<and> to_decimal E (snd (item ! i)) = Inr (Some d)"
      by (auto simp: eps_inv_def split: option.splits dest!: spec[where x=y]) }
  show "y \<in> fst ` set rows \<longleftrightarrow> (\<exists>kv \<in> set item. resolves kv y)"
  proof (cases "map_of byy y")
    case None
    then have "y \<notin> fst ` set rows" using rows by (simp add: map_of_eq_None_iff)
    moreover from None inv have "\<forall>kv \<in> set item. \<not> resolves kv y"
      by (auto simp: eps_inv_def split: option.splits dest: spec[where x=y])
    ultimately show ?thesis by blast
  next
    case (Some d)
    then have "y \<in> fst ` set rows" using rows by (metis map_of_eq_None_iff option.distinct(1) set_sort)
    moreover from Some inv obtain i where "first_highest item y i"
      by (auto simp: eps_inv_def split: option.splits dest!: spec[where x=y])
    then have "\<exists>kv \<in> set item. resolves kv y"
      by (auto simp: first_highest_def highest_def intro: nth_mem)
    ultimately show ?thesis by blast
  qed
qed

lemma eps_rows_total:
  assumes "\<forall>kv \<in> set item. (\<exists>y. resolves kv y) \<longrightarrow> to_decimal E (snd kv) \<noteq> Inl InvalidOperation"
  shows "\<exists>rows. eps_rows E item = Inr rows"
  using eps_loop_total[OF eps_inv_init assms]
  by (auto simp: eps_rows_def)

text \<open>
  C2, as amended. The resolver maps a key to a year by exactly three patterns: 20 and two
  digits followed by \<open>E_EPS\<close> (priority 3), 20 and two digits followed by \<open>_EPS\<close>
  (priority 2), and three digits followed by \<open>_EPS\<close>, the year being the code plus 1700
  (priority 1; \<open>325_EPS\<close> is year 2025). The year forms cover the years 2000 to 2099
  only, and a key may end with one newline. Every other key has no year and priority 0
  and is ignored, as is a key whose value is empty or absent. When the resolver returns,
  its rows are sorted by strictly increasing year, the years are exactly those that some
  key with a non-empty value resolves to, and the value of each year is the decimal of a
  key of highest priority for that year. It returns whenever the value of every resolving
  key parses. With \<open>2027E_EPS = 1.1\<close>, \<open>2027_EPS = 1.0\<close> and \<open>327_EPS = 0.9\<close>, in any
  order, the value for 2027 is 1.1.
\<close>

theorem eps_resolver_highest_priority:
  assumes "eps_rows E item = Inr rows"
  shows "sorted_wrt (<) (map fst rows)
       \<and> (\<forall>y. y \<in> fst ` set rows \<longleftrightarrow> (\<exists>kv \<in> set item. resolves kv y))
       \<and> (\<forall>y d. (y, d) \<in> set rows \<longrightarrow>
              (\<exists>i. highest item y i \<and> to_decimal E (snd (item ! i)) = Inr (Some d)))
       \<and> (resolves kv yr \<longleftrightarrow>
              (year_E_key (fst kv) yr \<or> year_plain_key (fst kv) yr \<or> code_key (fst kv) yr)
              \<and> snd kv \<noteq> JStr [] \<and> snd kv \<noteq> JNull)
       \<and> (extract_eps_year key = Some yr \<longleftrightarrow>
              year_E_key key yr \<or> year_plain_key key yr \<or> code_key key yr)
       \<and> (extract_eps_year key = None \<longleftrightarrow>
              \<not> (\<exists>y. year_E_key key y \<or> year_plain_key key y \<or> code_key key y))
       \<and> (eps_priority key = 3 \<longleftrightarrow> (\<exists>y. year_E_key key y))
       \<and> (eps_priority key = 2 \<longleftrightarrow> (\<exists>y. year_plain_key key y))
       \<and> (eps_priority key = 1 \<longleftrightarrow> (\<exists>y. code_key key y))
       \<and> (eps_priority key = 0 \<longleftrightarrow> extract_eps_year key = None)
       \<and> extract_eps_year ''325_EPS'' = Some 2025
       \<and> ((\<forall>kv \<in> set item'. (\<exists>y. resolves kv y) \<longrightarrow> to_decimal E (snd kv) \<noteq> Inl InvalidOperation)
            \<longrightarrow> (\<exists>rows'. eps_rows E item' = Inr rows'))
       \<and> (\<forall>perm \<in> set [[(''2027E_EPS'', JNum 1.1), (''2027_EPS'', JNum 1.0), (''327_EPS'', JNum 0.9)],
                         [(''2027E_EPS'', JNum 1.1), (''327_EPS'', JNum 0.9), (''2027_EPS'', JNum 1.0)],
                         [(''2027_EPS'', JNum 1.0), (''2027E_EPS'', JNum 1.1), (''327_EPS'', JNum 0.9)],
                         [(''2027_EPS'', JNum 1.0), (''327_EPS'', JNum 0.9), (''2027E_EPS'', JNum 1.1)],
                         [(''327_EPS'', JNum 0.9), (''2027E_EPS'', JNum 1.1), (''2027_EPS'', JNum 1.0)],
                         [(''327_EPS'', JNum 0.9), (''2027_EPS'', JNum 1.0), (''2027E_EPS'', JNum 1.1)]].
             eps_rows E perm = Inr [(2027, 1.1)])"
proof -
  have hi: "\<exists>i. highest item y i \<and> to_decimal E (snd (item ! i)) = Inr (Some d)"
    if "(y, d) \<in> set rows" for y d
    using eps_rows_characterised(2)[OF assms that] by (auto simp: first_highest_def)
  have ex: "\<forall>perm \<in> set [[(''2027E_EPS'', JNum 1.1), (''2027_EPS'', JNum 1.0), (''327_EPS'', JNum 0.9)],
                         [(''2027E_EPS'', JNum 1.1), (''327_EPS'', JNum 0.9), (''2027_EPS'', JNum 1.0)],
                         [(''2027_EPS'', JNum 1.0), (''2027E_EPS'', JNum 1.1), (''327_EPS'', JNum 0.9)],
                         [(''2027_EPS'', JNum 1.0), (''327_EPS'', JNum 0.9), (''2027E_EPS'', JNum 1.1)],
                         [(''327_EPS'', JNum 0.9), (''2027E_EPS'', JNum 1.1), (''2027_EPS'', JNum 1.0)],
                         [(''327_EPS'', JNum 0.9), (''2027_EPS'', JNum 1.0), (''2027E_EPS'', JNum 1.1)]].
             eps_rows E perm = Inr [(2027, 1.1)]"
    by (simp add: eps_rows_def extract_eps_year_def EPS_YEAR_RE_def EPS_CODE_RE_def isdigit_def
          int_of_digits_def digit_val_def dollar_def eps_priority_def empty_value_def)
  have c325: "extract_eps_year ''325_EPS'' = Some 2025"
    by (simp add: extract_eps_year_def EPS_YEAR_RE_def EPS_CODE_RE_def isdigit_def
          int_of_digits_def digit_val_def dollar_def)
  have res: "resolves kv yr \<longleftrightarrow>
              (year_E_key (fst kv) yr \<or> year_plain_key (fst kv) yr \<or> code_key (fst kv) yr)
              \<and> snd kv \<noteq> JStr [] \<and> snd kv \<noteq> JNull"
    by (simp add: resolves_def empty_value_def extract_eps_year_iff)
  have none: "extract_eps_year key = None \<longleftrightarrow>
              \<not> (\<exists>y. year_E_key key y \<or> year_plain_key key y \<or> code_key key y)"
    using extract_eps_year_iff[of key] by (cases "extract_eps_year key") auto
  have tot: "(\<forall>kv \<in> set item'. (\<exists>y. resolves kv y) \<longrightarrow> to_decimal E (snd kv) \<noteq> Inl InvalidOperation)
            \<longrightarrow> (\<exists>rows'. eps_rows E item' = Inr rows')"
    using eps_rows_total[of item' E] by blast
  have rows: "\<forall>y. y \<in> fst ` set rows \<longleftrightarrow> (\<exists>kv \<in> set item. resolves kv y)"
    using eps_rows_characterised(3)[OF assms] by blast
  have his: "\<forall>y d. (y, d) \<in> set rows \<longrightarrow>
              (\<exists>i. highest item y i \<and> to_decimal E (snd (item ! i)) = Inr (Some d))"
    using hi by blast
  note pri = eps_priority_iff[of key]
  from pri have p3: "eps_priority key = 3 \<longleftrightarrow> (\<exists>y. year_E_key key y)"
    and p2: "eps_priority key = 2 \<longleftrightarrow> (\<exists>y. year_plain_key key y)"
    and p1: "eps_priority key = 1 \<longleftrightarrow> (\<exists>y. code_key key y)"
    and p0: "eps_priority key = 0 \<longleftrightarrow> extract_eps_year key = None"
    by blast+
  show ?thesis
    by (intro conjI)
       (rule eps_rows_characterised(1)[OF assms] rows his res extract_eps_year_iff none
          p3 p2 p1 p0 c325 tot ex)+
qed

theorem eps_resolver_highest_priority_witness:
  "eps_rows example_env
     [(''Ticker'', JStr ''COP US''), (''327_EPS'', JStr ''0.9''), (''2027E_EPS'', JStr ''1.1''),
      (''Price'', JStr []), (''1999_EPS'', JNum 4.4), (''325_EPS'', JNum 2.2)]
     = Inr [(2025, 2.2), (2027, 1.1)]
   \<and> sorted_wrt (<) (map fst [(2025 :: nat, 2.2 :: rat), (2027, 1.1)])
   \<and> (\<exists>i. highest [(''Ticker'', JStr ''COP US''), (''327_EPS'', JStr ''0.9''),
                     (''2027E_EPS'', JStr ''1.1''), (''Price'', JStr []),
                     (''1999_EPS'', JNum 4.4), (''325_EPS'', JNum 2.2)] 2027 i
          \<and> to_decimal example_env
               (snd ([(''Ticker'', JStr ''COP US''), (''327_EPS'', JStr ''0.9''),
                      (''2027E_EPS'', JStr ''1.1''), (''Price'', JStr []),
                      (''1999_EPS'', JNum 4.4), (''325_EPS'', JNum 2.2)] ! i))
             = Inr (Some 1.1))
   \<and> (\<exists>rows'. eps_rows example_env
                  [(''Ticker'', JStr ''COP US''), (''327_EPS'', JStr ''0.9''),
                   (''2027E_EPS'', JStr ''1.1''), (''Price'', JStr []),
                   (''1999_EPS'', JNum 4.4), (''325_EPS'', JNum 2.2)] = Inr rows')
   \<and> (\<exists>y. year_E_key ''2027E_EPS'' y)
   \<and> (\<exists>y. year_plain_key ''2027_EPS'' y)
   \<and> (\<exists>y. code_key ''327_EPS'' y)
   \<and> extract_eps_year ''1999_EPS'' = None
   \<and> \<not> (\<exists>y. year_E_key ''1999_EPS'' y \<or> year_plain_key ''1999_EPS'' y \<or> code_key ''1999_EPS'' y)"
proof -
  let ?item = "[(''Ticker'', JStr ''COP US''), (''327_EPS'', JStr ''0.9''),
                (''2027E_EPS'', JStr ''1.1''), (''Price'', JStr []),
                (''1999_EPS'', JNum 4.4), (''325_EPS'', JNum 2.2)]"
  have h: "eps_rows example_env ?item = Inr [(2025, 2.2), (2027, 1.1)]"
    by code_simp
  have ok: "\<forall>kv \<in> set ?item. extract_eps_year (fst kv) = None
              \<or> to_decimal example_env (snd kv) \<noteq> Inl InvalidOperation"
    by code_simp
  then have tot: "\<forall>kv \<in> set ?item. (\<exists>y. resolves kv y)
              \<longrightarrow> to_decimal example_env (snd kv) \<noteq> Inl InvalidOperation"
    by (auto simp: resolves_def)
  have e: "eps_priority ''2027E_EPS'' = 3" "eps_priority ''2027_EPS'' = 2"
    "eps_priority ''327_EPS'' = 1" "extract_eps_year ''1999_EPS'' = None"
    by code_simp+
  have m: "(2027 :: nat, 1.1 :: rat) \<in> set [(2025, 2.2), (2027, 1.1)]" by simp
  note T = eps_resolver_highest_priority[OF h, where item' = ?item]
  note c6 = conjunct2[THEN conjunct2, THEN conjunct2, THEN conjunct2, THEN conjunct2]
  have s: "sorted_wrt (<) (map fst [(2025 :: nat, 2.2 :: rat), (2027, 1.1)])"
    by (rule T[THEN conjunct1])
  have hi: "\<exists>i. highest ?item 2027 i \<and> to_decimal example_env (snd (?item ! i)) = Inr (Some 1.1)"
    by (rule T[THEN conjunct2, THEN conjunct2, THEN conjunct1, rule_format, OF m])
  have t: "\<exists>rows'. eps_rows example_env ?item = Inr rows'"
    by (rule T[THEN c6, THEN c6, THEN conjunct2, THEN conjunct1, THEN mp, OF tot])
  have k3: "\<exists>y. year_E_key ''2027E_EPS'' y"
    by (rule T[where key = "''2027E_EPS''", THEN c6, THEN conjunct2, THEN conjunct1, THEN iffD1,
          OF e(1)])
  have k2: "\<exists>y. year_plain_key ''2027_EPS'' y"
    by (rule T[where key = "''2027_EPS''", THEN c6, THEN conjunct2, THEN conjunct2,
          THEN conjunct1, THEN iffD1, OF e(2)])
  have k1: "\<exists>y. code_key ''327_EPS'' y"
    by (rule T[where key = "''327_EPS''", THEN c6, THEN conjunct2, THEN conjunct2,
          THEN conjunct2, THEN conjunct1, THEN iffD1, OF e(3)])
  have k0: "\<not> (\<exists>y. year_E_key ''1999_EPS'' y \<or> year_plain_key ''1999_EPS'' y \<or> code_key ''1999_EPS'' y)"
    by (rule T[where key = "''1999_EPS''", THEN c6, THEN conjunct1, THEN iffD1, OF e(4)])
  show ?thesis
    by (intro conjI) (rule h s hi t k3 k2 k1 e(4) k0)+
qed

text \<open>
  The claim as first stated (any year \<open>YYYY\<close>, keys matched by the patterns alone) fails:
  \<open>1999_EPS\<close> and \<open>2127E_EPS\<close> carry a four-digit year and resolve to nothing, so a record
  holding only \<open>1999_EPS = 1.0\<close> yields no row; and \<open>2027_EPS\<close> followed by a newline,
  which is not of the form \<open>YYYY_EPS\<close>, resolves to 2027.
\<close>

theorem eps_year_outside_2000s_counterexample:
  "extract_eps_year ''1999_EPS'' = None
   \<and> extract_eps_year ''2127E_EPS'' = None
   \<and> eps_priority ''1999_EPS'' = 0
   \<and> eps_rows example_env [(''1999_EPS'', JNum 1.0)] = Inr []
   \<and> extract_eps_year (''2027_EPS'' @ [CHR 0x0A]) = Some 2027
   \<and> eps_rows example_env [(''2027_EPS'' @ [CHR 0x0A], JNum 1.0)] = Inr [(2027, 1)]"
  by code_simp

lemma first_highest_unique:
  assumes "first_highest item y w" "first_highest item y w'"
  shows "w = w'"
proof (rule ccontr)
  assume "w \<noteq> w'"
  then consider "w < w'" | "w' < w" by linarith
  then show False
  proof cases
    case 1
    with assms have "eps_priority (fst (item ! w)) < eps_priority (fst (item ! w'))"
      by (simp add: first_highest_def highest_def)
    moreover from assms have "eps_priority (fst (item ! w')) \<le> eps_priority (fst (item ! w))"
      by (simp add: first_highest_def highest_def)
    ultimately show False by simp
  next
    case 2
    with assms have "eps_priority (fst (item ! w')) < eps_priority (fst (item ! w))"
      by (simp add: first_highest_def highest_def)
    moreover from assms have "eps_priority (fst (item ! w)) \<le> eps_priority (fst (item ! w'))"
      by (simp add: first_highest_def highest_def)
    ultimately show False by simp
  qed
qed

text \<open>
  C3, as amended. When several keys of a record resolve to the same year with the highest
  priority, the key met first in iteration order wins: the value stored for the year is
  the decimal of the first key of highest priority, and a later key of equal priority
  never replaces it.
\<close>

theorem eps_tie_first_key_wins:
  assumes "eps_rows E item = Inr rows" and "(y, d) \<in> set rows"
  shows "\<exists>w. first_highest item y w
           \<and> to_decimal E (snd (item ! w)) = Inr (Some d)
           \<and> (\<forall>w'. first_highest item y w' \<longrightarrow> w' = w)
           \<and> (\<forall>j < length item. resolves (item ! j) y
                  \<and> eps_priority (fst (item ! j)) = eps_priority (fst (item ! w)) \<longrightarrow> w \<le> j)"
proof -
  from eps_rows_characterised(2)[OF assms] obtain w where w: "first_highest item y w"
    and dec: "to_decimal E (snd (item ! w)) = Inr (Some d)"
    by blast
  have "\<forall>w'. first_highest item y w' \<longrightarrow> w' = w"
    using first_highest_unique[OF _ w] by blast
  moreover have "\<forall>j < length item. resolves (item ! j) y
          \<and> eps_priority (fst (item ! j)) = eps_priority (fst (item ! w)) \<longrightarrow> w \<le> j"
  proof (intro allI impI)
    fix j assume "j < length item"
      and r: "resolves (item ! j) y \<and> eps_priority (fst (item ! j)) = eps_priority (fst (item ! w))"
    show "w \<le> j"
    proof (rule ccontr)
      assume "\<not> w \<le> j"
      then have "j < w" by simp
      with w r have "eps_priority (fst (item ! j)) < eps_priority (fst (item ! w))"
        unfolding first_highest_def by blast
      with r show False by simp
    qed
  qed
  ultimately show ?thesis using w dec by blast
qed

theorem eps_tie_first_key_wins_witness:
  "eps_rows example_env [(''2027_EPS'', JStr ''1.0''), (''2027_EPS'' @ [CHR 0x0A], JStr ''2.0'')]
     = Inr [(2027, 1)]
   \<and> (\<exists>w. to_decimal example_env
             (snd ([(''2027_EPS'', JStr ''1.0''), (''2027_EPS'' @ [CHR 0x0A], JStr ''2.0'')] ! w))
           = Inr (Some 1))"
proof -
  have h: "eps_rows example_env [(''2027_EPS'', JStr ''1.0''), (''2027_EPS'' @ [CHR 0x0A], JStr ''2.0'')]
     = Inr [(2027, 1)]"
    by code_simp
  from eps_tie_first_key_wins[OF h, of 2027 1] h show ?thesis by auto
qed

text \<open>
  The claim as first stated (the later key wins a tie) fails: \<open>2027_EPS\<close> and the same key
  followed by a newline both resolve to 2027 with priority 2, and the value kept is that
  of the first, 1.0, not that of the second, 2.0.
\<close>

theorem eps_tie_later_key_counterexample:
  "extract_eps_year ''2027_EPS'' = Some 2027
   \<and> extract_eps_year (''2027_EPS'' @ [CHR 0x0A]) = Some 2027
   \<and> eps_priority ''2027_EPS'' = 2
   \<and> eps_priority (''2027_EPS'' @ [CHR 0x0A]) = 2
   \<and> to_decimal example_env (JStr ''1.0'') = Inr (Some 1)
   \<and> to_decimal example_env (JStr ''2.0'') = Inr (Some 2)
   \<and> eps_rows example_env [(''2027_EPS'', JStr ''1.0''), (''2027_EPS'' @ [CHR 0x0A], JStr ''2.0'')]
       = Inr [(2027, 1)]"
  by code_simp

section \<open>Get-or-create and the import loop\<close>

lemma find_append_Some: "find P xs = Some x \<Longrightarrow> find P (xs @ ys) = Some x"
  by (induction xs) (auto split: if_splits)

lemma find_append_None: "find P xs = None \<Longrightarrow> find P (xs @ ys) = find P ys"
  by (induction xs) (auto split: if_splits)

lemma extends_refl: "extends d d"
  by (simp add: extends_def)

lemma extends_trans: "extends a b \<Longrightarrow> extends b c \<Longrightarrow> extends a c"
  by (auto simp: extends_def)

lemma find_stock_extends:
  "find_stock d t r = Some s \<Longrightarrow> extends d d' \<Longrightarrow> find_stock d' t r = Some s"
  by (auto simp: find_stock_def extends_def find_append_Some)

lemma find_report_extends:
  "find_report d sid ts = Some r \<Longrightarrow> extends d d' \<Longrightarrow> find_report d' sid ts = Some r"
  by (auto simp: find_report_def extends_def find_append_Some)

lemma present_extends:
  assumes "present d t r ts" and "extends d d'"
  shows "present d' t r ts"
proof -
  from assms(1) obtain s rp where s: "find_stock d t r = Some s"
    and rp: "find_report d (stock_pk s) ts = Some rp"
    by (auto simp: present_def split: option.splits)
  show ?thesis
    using find_stock_extends[OF s assms(2)] find_report_extends[OF rp assms(2)]
    by (simp add: present_def)
qed

lemma Stock_get_or_create_found:
  "find_stock d t r = Some s \<Longrightarrow> Stock_get_or_create E d t r co cu = (s, False, d)"
  by (simp add: Stock_get_or_create_def)

lemma Stock_get_or_create_result:
  assumes "Stock_get_or_create E d t r co cu = (s, c, d')"
  shows "find_stock d' t r = Some s" and "extends d d'" and "reports d' = reports d"
    and "takeaways d' = takeaways d" and "eps_forecasts d' = eps_forecasts d"
  using assms
  by (auto simp: Stock_get_or_create_def find_stock_def extends_def find_append_None Let_def
           split: option.splits)

lemma DailyReport_get_or_create_found:
  "find_report d (stock_pk s) ts = Some r
     \<Longrightarrow> DailyReport_get_or_create E clock n d s ts defaults = (r, False, d, n)"
  by (simp add: DailyReport_get_or_create_def)

lemma DailyReport_get_or_create_result:
  assumes "DailyReport_get_or_create E clock n d s ts defaults = (r, c, d', n')"
  shows "find_report d' (stock_pk s) ts = Some r" and "extends d d'" and "stocks d' = stocks d"
    and "takeaways d' = takeaways d" and "eps_forecasts d' = eps_forecasts d"
  using assms
  by (auto simp: DailyReport_get_or_create_def find_report_def extends_def find_append_None Let_def
           split: option.splits)

lemma atomic_block_present_noop:
  assumes "present d (p_ticker p) (p_region p) (p_as_of_ts p)"
  shows "atomic_block E clock p d = Inr (d, p_ticks p, False)"
proof -
  from assms obtain s r where s: "find_stock d (p_ticker p) (p_region p) = Some s"
    and r: "find_report d (stock_pk s) (p_as_of_ts p) = Some r"
    by (auto simp: present_def split: option.splits)
  show ?thesis
    by (simp add: atomic_block_def Stock_get_or_create_found[OF s]
          DailyReport_get_or_create_found[OF r])
qed

lemma atomic_block_result:
  assumes "atomic_block E clock p d = Inr (d', n', c)"
  shows "present d' (p_ticker p) (p_region p) (p_as_of_ts p)" and "extends d d'"
proof -
  obtain s c1 d1 where sg: "Stock_get_or_create E d (p_ticker p) (p_region p) (p_company_name p) (p_currency p) = (s, c1, d1)"
    by (metis prod_cases3)
  obtain r c2 d2 n2 where rg: "DailyReport_get_or_create E clock (p_ticks p) d1 s (p_as_of_ts p) (p_report_defaults p) = (r, c2, d2, n2)"
    by (metis prod_cases4)
  note S = Stock_get_or_create_result[OF sg]
  note R = DailyReport_get_or_create_result[OF rg]
  have p2: "present d2 (p_ticker p) (p_region p) (p_as_of_ts p)"
    using find_stock_extends[OF S(1) R(2)] R(1) by (simp add: present_def)
  have e2: "extends d d2" using extends_trans[OF S(2) R(2)] .
  from assms sg rg have "extends d2 d'"
    by (auto simp: atomic_block_def extends_def split: if_splits sum.splits)
  then show "present d' (p_ticker p) (p_region p) (p_as_of_ts p)" and "extends d d'"
    using p2 e2 present_extends extends_trans by blast+
qed


lemma parse_timestamp_clock:
  "truthy ts \<Longrightarrow> parse_timestamp E c n ts =
     (case parse_timestamp E c' n' ts of Inl e \<Rightarrow> Inl e | Inr (t, m) \<Rightarrow> Inr (t, n))"
  by (cases ts) (auto simp: parse_timestamp_def split: option.splits)

lemma parse_item_clock:
  assumes "has_timestamp item"
  shows "parse_item E c n item =
     (case parse_item E c' n' item of Parsed p \<Rightarrow> Parsed (p\<lparr>p_ticks := n\<rparr>) | res \<Rightarrow> res)"
proof (cases item)
  case (JObj kvs)
  with assms have t: "truthy (get kvs ''Timestamp'' JNull)" by (simp add: has_timestamp_def)
  show ?thesis
    unfolding JObj parse_item_def jval.case
    by (subst parse_timestamp_clock[OF t, of E c n c' n'])
       (auto split: sum.splits prod.splits)
qed (simp_all add: parse_item_def)

lemma parse_item_cases:
  assumes "has_timestamp item"
  obtains (skip) "parse_item E (\<lambda>n. 0) 0 item = Skip" "parse_item E c n item = Skip"
  | (raises) e where "parse_item E (\<lambda>n. 0) 0 item = Raises e" "parse_item E c n item = Raises e"
  | (parsed) p where "parse_item E (\<lambda>n. 0) 0 item = Parsed p"
      "parse_item E c n item = Parsed (p\<lparr>p_ticks := n\<rparr>)"
  using parse_item_clock[OF assms, of E c n "\<lambda>n. 0" 0]
  by (cases "parse_item E (\<lambda>n. 0) 0 item") auto

lemma import_item_first:
  assumes ts: "has_timestamp item" and run: "import_item E c False item st = Inr st'"
  shows "settled E (db st') item" and "extends (db st) (db st')"
    and "created_reports st' + skipped_reports st'
           = created_reports st + skipped_reports st + (if parses E item then 1 else 0)"
    and "total_reports st' = total_reports st + 1"
proof -
  have "settled E (db st') item \<and> extends (db st) (db st')
      \<and> created_reports st' + skipped_reports st'
           = created_reports st + skipped_reports st + (if parses E item then 1 else 0)
      \<and> total_reports st' = total_reports st + 1"
  proof -
    consider (skip) "parse_item E (\<lambda>n. 0) 0 item = Skip" "parse_item E c (ticks st) item = Skip"
    | (raises) e where "parse_item E (\<lambda>n. 0) 0 item = Raises e" "parse_item E c (ticks st) item = Raises e"
    | (parsed) p where "parse_item E (\<lambda>n. 0) 0 item = Parsed p"
        "parse_item E c (ticks st) item = Parsed (p\<lparr>p_ticks := ticks st\<rparr>)"
    by (rule parse_item_cases[OF ts, of E c "ticks st"]; blast)
    then show ?thesis
    proof cases
    case skip
    with run show ?thesis
      by (auto simp: import_item_def settled_def parses_def extends_refl Let_def)
  next
    case (raises e)
    with run show ?thesis by (simp add: import_item_def Let_def)
  next
    case (parsed p)
    let ?p = "p\<lparr>p_ticks := ticks st\<rparr>"
    from run parsed obtain d' n' cr where ab: "atomic_block E c ?p (db st) = Inr (d', n', cr)"
      and st': "st' = (if cr
          then st\<lparr>total_reports := total_reports st + 1, db := d', ticks := n',
                  created_reports := created_reports st + 1\<rparr>
          else st\<lparr>total_reports := total_reports st + 1, db := d', ticks := n',
                  skipped_reports := skipped_reports st + 1\<rparr>)"
      by (auto simp: import_item_def Let_def split: sum.splits if_splits)
    from atomic_block_result[OF ab] st' parsed show ?thesis
      by (auto simp: settled_def parses_def)
    qed
  qed
  then show "settled E (db st') item" and "extends (db st) (db st')"
    and "created_reports st' + skipped_reports st'
           = created_reports st + skipped_reports st + (if parses E item then 1 else 0)"
    and "total_reports st' = total_reports st + 1"
    by blast+
qed

lemma import_item_second:
  assumes ts: "has_timestamp item" and se: "settled E (db st) item"
  shows "\<exists>st'. import_item E c False item st = Inr st' \<and> db st' = db st
           \<and> created_reports st' = created_reports st
           \<and> skipped_reports st' = skipped_reports st + (if parses E item then 1 else 0)
           \<and> total_reports st' = total_reports st + 1"
proof -
  consider (skip) "parse_item E (\<lambda>n. 0) 0 item = Skip" "parse_item E c (ticks st) item = Skip"
  | (raises) e where "parse_item E (\<lambda>n. 0) 0 item = Raises e" "parse_item E c (ticks st) item = Raises e"
  | (parsed) p where "parse_item E (\<lambda>n. 0) 0 item = Parsed p"
      "parse_item E c (ticks st) item = Parsed (p\<lparr>p_ticks := ticks st\<rparr>)"
  by (rule parse_item_cases[OF ts, of E c "ticks st"]; blast)
  then show ?thesis
  proof cases
  case skip
  then show ?thesis by (simp add: import_item_def parses_def Let_def)
next
  case (raises e)
  with se show ?thesis by (simp add: settled_def)
next
  case (parsed p)
  let ?p = "p\<lparr>p_ticks := ticks st\<rparr>"
  from se parsed have "present (db st) (p_ticker ?p) (p_region ?p) (p_as_of_ts ?p)"
    by (simp add: settled_def)
  from atomic_block_present_noop[OF this, of E c] parsed show ?thesis
    by (simp add: import_item_def parses_def Let_def)
  qed
qed

lemma settled_extends: "settled E d item \<Longrightarrow> extends d d' \<Longrightarrow> settled E d' item"
  by (auto simp: settled_def split: parse_result.splits dest: present_extends)

lemma import_items_first:
  assumes "\<forall>item \<in> set items. has_timestamp item"
    and "import_items E c False items st = Completed st'"
  shows "(\<forall>item \<in> set items. settled E (db st') item) \<and> extends (db st) (db st')
       \<and> created_reports st' + skipped_reports st'
           = created_reports st + skipped_reports st + length (filter (parses E) items)
       \<and> total_reports st' = total_reports st + length items"
  using assms
proof (induction items arbitrary: st)
  case Nil
  then show ?case by (simp add: extends_refl)
next
  case (Cons item items)
  from Cons.prems obtain st1 where s1: "import_item E c False item st = Inr st1"
    and rest: "import_items E c False items st1 = Completed st'"
    by (auto split: sum.splits)
  from Cons.prems have ts: "has_timestamp item" and tss: "\<forall>item \<in> set items. has_timestamp item"
    by simp_all
  note F = import_item_first[OF ts s1]
  note IH = Cons.IH[OF tss rest]
  have "settled E (db st') item"
    using settled_extends[OF F(1)] IH by blast
  moreover have "extends (db st) (db st')"
    using extends_trans[OF F(2)] IH by blast
  ultimately show ?case using IH F(3) F(4) by auto
qed

lemma import_items_second:
  assumes "\<forall>item \<in> set items. has_timestamp item \<and> settled E (db st) item"
  shows "\<exists>st'. import_items E c False items st = Completed st' \<and> db st' = db st
           \<and> created_reports st' = created_reports st
           \<and> skipped_reports st' = skipped_reports st + length (filter (parses E) items)
           \<and> total_reports st' = total_reports st + length items"
  using assms
proof (induction items arbitrary: st)
  case Nil
  then show ?case by simp
next
  case (Cons item items)
  then have ts: "has_timestamp item" and se: "settled E (db st) item" by simp_all
  from import_item_second[OF ts se, of c] obtain st1 where
    s1: "import_item E c False item st = Inr st1" "db st1 = db st"
      "created_reports st1 = created_reports st"
      "skipped_reports st1 = skipped_reports st + (if parses E item then 1 else 0)"
      "total_reports st1 = total_reports st + 1"
    by blast
  have "\<forall>item \<in> set items. has_timestamp item \<and> settled E (db st1) item"
    using Cons.prems s1(2) by simp
  from Cons.IH[OF this] s1 show ?case by auto
qed

lemma import_files_first:
  assumes "\<forall>data \<in> set files. \<forall>item \<in> set (records data). has_timestamp item"
    and "import_files E c False files st = Completed st'"
  shows "(\<forall>data \<in> set files. (\<exists>items. data = JArr items)
            \<and> (\<forall>item \<in> set (records data). settled E (db st') item))
       \<and> extends (db st) (db st')
       \<and> created_reports st' + skipped_reports st'
           = created_reports st + skipped_reports st
             + length (filter (parses E) (concat (map records files)))
       \<and> total_reports st' = total_reports st + length (concat (map records files))"
  using assms
proof (induction files arbitrary: st)
  case Nil
  then show ?case by (simp add: extends_refl)
next
  case (Cons data files)
  from Cons.prems(2) obtain items st1 where d: "data = JArr items"
    and s1: "import_items E c False items st = Completed st1"
    and rest: "import_files E c False files st1 = Completed st'"
    by (auto split: jval.splits outcome.splits)
  from Cons.prems(1) d have ts: "\<forall>item \<in> set items. has_timestamp item"
    and tss: "\<forall>data \<in> set files. \<forall>item \<in> set (records data). has_timestamp item"
    by (simp_all add: records_def)
  note F = import_items_first[OF ts s1]
  note IH = Cons.IH[OF tss rest]
  have "\<forall>item \<in> set items. settled E (db st') item"
    using F IH settled_extends by blast
  moreover have "extends (db st) (db st')"
    using extends_trans F IH by blast
  ultimately show ?case using IH F d by (auto simp: records_def)
qed

lemma import_files_second:
  assumes "\<forall>data \<in> set files. (\<exists>items. data = JArr items)
            \<and> (\<forall>item \<in> set (records data). has_timestamp item \<and> settled E (db st) item)"
  shows "\<exists>st'. import_files E c False files st = Completed st' \<and> db st' = db st
           \<and> created_reports st' = created_reports st
           \<and> skipped_reports st' = skipped_reports st
               + length (filter (parses E) (concat (map records files)))
           \<and> total_reports st' = total_reports st + length (concat (map records files))"
  using assms
proof (induction files arbitrary: st)
  case Nil
  then show ?case by simp
next
  case (Cons data files)
  then obtain items where d: "data = JArr items" by auto
  with Cons.prems have "\<forall>item \<in> set items. has_timestamp item \<and> settled E (db st) item"
    by (simp add: records_def)
  from import_items_second[OF this, of c] obtain st1 where
    s1: "import_items E c False items st = Completed st1" "db st1 = db st"
      "created_reports st1 = created_reports st"
      "skipped_reports st1 = skipped_reports st + length (filter (parses E) items)"
      "total_reports st1 = total_reports st + length items"
    by blast
  have "\<forall>data \<in> set files. (\<exists>items. data = JArr items)
            \<and> (\<forall>item \<in> set (records data). has_timestamp item \<and> settled E (db st1) item)"
    using Cons.prems s1(2) by simp
  from Cons.IH[OF this] s1 d show ?case by (auto simp: records_def)
qed

lemma handle_rerun_completed:
  assumes ts: "\<forall>data \<in> set files. \<forall>item \<in> set (records data). has_timestamp item"
    and first: "handle E clock1 False files d0 = Completed st1"
  shows "\<exists>st2. handle E clock2 False files (db st1) = Completed st2
           \<and> db st2 = db st1
           \<and> total_reports st2 = total_reports st1
           \<and> created_reports st2 = 0
           \<and> skipped_reports st2 = created_reports st1 + skipped_reports st1"
proof -
  let ?st0 = "\<lambda>d. \<lparr>db = d, ticks = 0, total_reports = 0, created_reports = 0, skipped_reports = 0\<rparr>"
  from first have ne: "files \<noteq> []" and f: "import_files E clock1 False files (?st0 d0) = Completed st1"
    by (auto simp: handle_def split: if_splits)
  note F = import_files_first[OF ts f]
  have "\<forall>data \<in> set files. (\<exists>items. data = JArr items)
            \<and> (\<forall>item \<in> set (records data). has_timestamp item \<and> settled E (db (?st0 (db st1))) item)"
    using F ts by simp
  from import_files_second[OF this, of clock2] obtain st2 where
    "import_files E clock2 False files (?st0 (db st1)) = Completed st2" "db st2 = db st1"
    "created_reports st2 = 0"
    "skipped_reports st2 = length (filter (parses E) (concat (map records files)))"
    "total_reports st2 = length (concat (map records files))"
    by auto
  with F ne show ?thesis by (simp add: handle_def)
qed


lemma import_item_extends:
  assumes "import_item E c dry item st = Inr st'"
  shows "extends (db st) (db st')"
proof (cases "parse_item E c (ticks st) item")
  case Skip
  with assms show ?thesis by (auto simp: import_item_def Let_def extends_refl)
next
  case (Raises e)
  with assms show ?thesis by (simp add: import_item_def Let_def)
next
  case (Parsed p)
  show ?thesis
  proof (cases dry)
    case True
    with assms Parsed show ?thesis by (auto simp: import_item_def Let_def extends_refl)
  next
    case False
    with assms Parsed obtain d' n' cr where ab: "atomic_block E c p (db st) = Inr (d', n', cr)"
      and "db st' = d'"
      by (auto simp: import_item_def Let_def split: sum.splits if_splits)
    with atomic_block_result(2)[OF ab] show ?thesis by simp
  qed
qed

lemma import_items_extends:
  "extends (db st) (store_of (import_items E c dry items st))"
proof (induction items arbitrary: st)
  case Nil
  then show ?case by (simp add: store_of_def extends_refl)
next
  case (Cons item items)
  show ?case
  proof (cases "import_item E c dry item st")
    case (Inl e)
    then show ?thesis by (simp add: store_of_def extends_refl)
  next
    case (Inr st1)
    with extends_trans[OF import_item_extends[OF Inr] Cons.IH[of st1]] show ?thesis by simp
  qed
qed

lemma import_files_extends:
  "extends (db st) (store_of (import_files E c dry files st))"
proof (induction files arbitrary: st)
  case Nil
  then show ?case by (simp add: store_of_def extends_refl)
next
  case (Cons data files)
  show ?case
  proof (cases data)
    case (JArr items)
    show ?thesis
    proof (cases "import_items E c dry items st")
      case (Completed st1)
      with import_items_extends[of st E c dry items] have "extends (db st) (db st1)"
        by (simp add: store_of_def)
      from extends_trans[OF this Cons.IH[of st1]] JArr Completed show ?thesis by simp
    next
      case (Raised e d)
      with import_items_extends[of st E c dry items] JArr show ?thesis
        by (simp add: store_of_def)
    qed
  qed (simp_all add: store_of_def extends_refl)
qed

lemma handle_extends: "extends d0 (store_of (handle E c dry files d0))"
  using import_files_extends[of "\<lparr>db = d0, ticks = 0, total_reports = 0, created_reports = 0,
      skipped_reports = 0\<rparr>" E c dry files]
  by (simp add: handle_def store_of_def extends_refl)

lemma atomic_block_error_clock:
  assumes "atomic_block E c p d = Inl e"
  shows "atomic_block E c' (p\<lparr>p_ticks := n\<rparr>) d = Inl e"
  using assms
  by (auto simp: atomic_block_def Stock_get_or_create_def DailyReport_get_or_create_def Let_def
           split: option.splits sum.splits if_splits)

lemma import_item_error_rerun:
  assumes ts: "has_timestamp item" and run: "import_item E c False item st = Inl e"
    and same: "db st2 = db st"
  shows "import_item E c2 False item st2 = Inl e"
proof -
  consider (skip) "parse_item E c2 (ticks st2) item = Skip" "parse_item E c (ticks st) item = Skip"
    | (raises) e' where "parse_item E c2 (ticks st2) item = Raises e'"
        "parse_item E c (ticks st) item = Raises e'"
    | (parsed) p where "parse_item E c2 (ticks st2) item = Parsed p"
        "parse_item E c (ticks st) item = Parsed (p\<lparr>p_ticks := ticks st\<rparr>)"
    using parse_item_clock[OF ts, of E c "ticks st" c2 "ticks st2"]
    by (cases "parse_item E c2 (ticks st2) item") auto
  then show ?thesis
  proof cases
    case skip
    with run show ?thesis by (simp add: import_item_def Let_def)
  next
    case (raises e')
    with run show ?thesis by (simp add: import_item_def Let_def)
  next
    case (parsed p)
    with run have "atomic_block E c (p\<lparr>p_ticks := ticks st\<rparr>) (db st) = Inl e"
      by (auto simp: import_item_def Let_def split: sum.splits if_splits)
    from atomic_block_error_clock[OF this, of c2 "p_ticks p"] parsed same show ?thesis
      by (simp add: import_item_def Let_def)
  qed
qed

lemma import_items_rerun_raised:
  assumes "\<forall>item \<in> set items. has_timestamp item"
    and "import_items E c False items st = Raised e d1"
    and "db st2 = d1"
  shows "import_items E c2 False items st2 = Raised e d1"
  using assms
proof (induction items arbitrary: st st2)
  case Nil
  then show ?case by simp
next
  case (Cons item items)
  then have ts: "has_timestamp item" and tss: "\<forall>item \<in> set items. has_timestamp item"
    by simp_all
  show ?case
  proof (cases "import_item E c False item st")
    case (Inl e')
    with Cons.prems have "e' = e" "d1 = db st" by simp_all
    with import_item_error_rerun[OF ts Inl, of st2 c2] Cons.prems(3) show ?thesis by simp
  next
    case (Inr st1)
    with Cons.prems have rest: "import_items E c False items st1 = Raised e d1" by simp
    have "extends (db st1) d1"
      using import_items_extends[of st1 E c False items] rest by (simp add: store_of_def)
    from settled_extends[OF import_item_first(1)[OF ts Inr] this] Cons.prems(3)
    have "settled E (db st2) item" by simp
    from import_item_second[OF ts this, of c2] obtain st2' where
      s2: "import_item E c2 False item st2 = Inr st2'" "db st2' = db st2"
      by blast
    from Cons.IH[OF tss rest, of st2'] s2 Cons.prems(3) show ?thesis by simp
  qed
qed

lemma import_files_rerun_raised:
  assumes "\<forall>data \<in> set files. \<forall>item \<in> set (records data). has_timestamp item"
    and "import_files E c False files st = Raised e d1"
    and "db st2 = d1"
  shows "import_files E c2 False files st2 = Raised e d1"
  using assms
proof (induction files arbitrary: st st2)
  case Nil
  then show ?case by simp
next
  case (Cons data files)
  show ?case
  proof (cases "\<exists>items. data = JArr items")
    case False
    with Cons.prems show ?thesis by (cases data) auto
  next
    case True
    then obtain items where d: "data = JArr items" by blast
    with Cons.prems(1) have ts: "\<forall>item \<in> set items. has_timestamp item"
      and tss: "\<forall>data \<in> set files. \<forall>item \<in> set (records data). has_timestamp item"
      by (simp_all add: records_def)
    show ?thesis
    proof (cases "import_items E c False items st")
      case (Raised e' d')
      with Cons.prems(2) d have "e' = e" "d' = d1" by simp_all
      with import_items_rerun_raised[OF ts Raised, of st2 c2] Cons.prems(3) d show ?thesis
        by simp
    next
      case (Completed st1)
      with Cons.prems(2) d have rest: "import_files E c False files st1 = Raised e d1" by simp
      have ext: "extends (db st1) d1"
        using import_files_extends[of st1 E c False files] rest by (simp add: store_of_def)
      have "\<forall>item \<in> set items. has_timestamp item \<and> settled E (db st2) item"
        using import_items_first[OF ts Completed] ts settled_extends[OF _ ext] Cons.prems(3)
        by blast
      from import_items_second[OF this, of c2] obtain st2' where
        s2: "import_items E c2 False items st2 = Completed st2'" "db st2' = db st2"
        by blast
      from Cons.IH[OF tss rest, of st2'] s2 Cons.prems(3) d show ?thesis by simp
    qed
  qed
qed

lemma handle_rerun_raised:
  assumes ts: "\<forall>data \<in> set files. \<forall>item \<in> set (records data). has_timestamp item"
    and first: "handle E clock1 False files d0 = Raised e d1"
  shows "handle E clock2 False files d1 = Raised e d1"
proof (cases "files = []")
  case True
  with first show ?thesis by (simp add: handle_def)
next
  case False
  with first have "import_files E clock1 False files
      \<lparr>db = d0, ticks = 0, total_reports = 0, created_reports = 0, skipped_reports = 0\<rparr>
      = Raised e d1"
    by (simp add: handle_def)
  from import_files_rerun_raised[OF ts this, of
      "\<lparr>db = d1, ticks = 0, total_reports = 0, created_reports = 0, skipped_reports = 0\<rparr>" clock2]
    False
  show ?thesis by (simp add: handle_def)
qed

lemma enumerate_nth: "enumerate 0 xs = map (\<lambda>i. (i, xs ! i)) [0..<length xs]"
  by (rule nth_equalityI) (simp_all add: nth_enumerate_eq)

lemma takeaway_rows_list:
  "takeaway_rows E rid (JArr xs) =
     Inr (map (\<lambda>i. \<lparr>takeaway_report_id = rid, takeaway_order = i,
                     takeaway_text = to_python E (xs ! i)\<rparr>)
            (filter (\<lambda>i. truthy (xs ! i)) [0..<length xs]))"
  by (simp add: takeaway_rows_def iterate_def enumerate_nth filter_map o_def)

lemma atomic_block_created:
  assumes "atomic_block E clock p d = Inr (d', n', True)"
  shows "\<exists>tks. takeaway_rows E (next_pk (map report_pk (reports d))) (p_key_takeaways p) = Inr tks
           \<and> takeaways d' = takeaways d @ tks
           \<and> eps_forecasts d' = eps_forecasts d
                @ eps_forecast_rows (next_pk (map report_pk (reports d))) (p_eps_rows p)"
proof -
  obtain s c1 d1 where sg: "Stock_get_or_create E d (p_ticker p) (p_region p) (p_company_name p) (p_currency p) = (s, c1, d1)"
    by (metis prod_cases3)
  obtain r c2 d2 n2 where rg: "DailyReport_get_or_create E clock (p_ticks p) d1 s (p_as_of_ts p) (p_report_defaults p) = (r, c2, d2, n2)"
    by (metis prod_cases4)
  note S = Stock_get_or_create_result[OF sg]
  note R = DailyReport_get_or_create_result[OF rg]
  from assms sg rg have c2: "c2" by (auto simp: atomic_block_def split: if_splits)
  with rg have pk: "report_pk r = next_pk (map report_pk (reports d1))"
    by (auto simp: DailyReport_get_or_create_def Let_def split: option.splits)
  from assms sg rg c2 pk S R show ?thesis
    by (auto simp: atomic_block_def split: sum.splits)
qed

lemma import_item_created:
  assumes "import_item E clock False (JObj kvs) st = Inr st'"
    and "created_reports st' = created_reports st + 1"
  shows "\<exists>p n'. parse_item E clock (ticks st) (JObj kvs) = Parsed p
           \<and> atomic_block E clock p (db st) = Inr (db st', n', True)"
  using assms
  by (auto simp: import_item_def Let_def split: parse_result.splits sum.splits if_splits)

lemma parse_item_takeaways:
  assumes "parse_item E clock n (JObj kvs) = Parsed p"
    and "get kvs ''Key_Takeaways'' (JArr []) = JArr xs"
  shows "p_key_takeaways p = JArr xs"
  using assms
  by (auto simp: parse_item_def or_else_def split: sum.splits prod.splits)

section \<open>Takeaways of a new report\<close>

text \<open>
  C4, as amended. When the import of a record creates its report, the takeaways added are
  the non-empty entries of \<open>Key_Takeaways\<close> in source order, and the order index of each
  is its position in the source list, counted from 0 with the dropped entries included:
  the list a, empty, b is stored as order 0 with text a and order 2 with text b.
\<close>

theorem takeaway_order_is_source_position:
  assumes "import_item E clock False (JObj kvs) st = Inr st'"
    and "created_reports st' = created_reports st + 1"
    and "get kvs ''Key_Takeaways'' (JArr []) = JArr xs"
  shows "takeaways (db st') = takeaways (db st)
           @ map (\<lambda>i. \<lparr>takeaway_report_id = next_pk (map report_pk (reports (db st))),
                         takeaway_order = i, takeaway_text = to_python E (xs ! i)\<rparr>)
               (filter (\<lambda>i. truthy (xs ! i)) [0..<length xs])"
proof -
  from import_item_created[OF assms(1,2)] obtain p n' where
    p: "parse_item E clock (ticks st) (JObj kvs) = Parsed p"
    and ab: "atomic_block E clock p (db st) = Inr (db st', n', True)"
    by blast
  from atomic_block_created[OF ab] parse_item_takeaways[OF p assms(3)] show ?thesis
    by (simp add: takeaway_rows_list)
qed

theorem takeaway_order_is_source_position_witness:
  "map (\<lambda>t. (takeaway_order t, takeaway_text t))
     (takeaways (db (case import_item example_env clock_a False (hd (records (hd takeaway_files)))
                           (initial_run empty_store) of Inr s \<Rightarrow> s)))
   = [(0, ''a''), (2, ''b'')]"
proof -
  let ?kvs = "[(''Ticker'', JStr ''COP US''), (''Timestamp'', JStr ''2026-01-16_13-48''),
                  (''Key_Takeaways'', JArr [JStr ''a'', JStr [], JStr ''b''])]"
  have i: "hd (records (hd takeaway_files)) = JObj ?kvs"
    by (simp add: takeaway_files_def records_def)
  have h1: "import_item example_env clock_a False (JObj ?kvs) (initial_run empty_store)
      = Inr (case import_item example_env clock_a False (JObj ?kvs) (initial_run empty_store) of
               Inr s \<Rightarrow> s)"
    by code_simp
  have h2: "created_reports (case import_item example_env clock_a False (JObj ?kvs)
                                    (initial_run empty_store) of Inr s \<Rightarrow> s)
      = created_reports (initial_run empty_store) + 1"
    by code_simp
  have h3: "get ?kvs ''Key_Takeaways'' (JArr []) = JArr [JStr ''a'', JStr [], JStr ''b'']"
    by code_simp
  have u: "[0..<length [JStr ''a'', JStr [], JStr ''b'']] = [0, 1, 2]"
    by code_simp
  from takeaway_order_is_source_position[OF h1 h2 h3] show ?thesis
    unfolding i u
    by (simp add: to_python_def initial_run_def empty_store_def)
qed

text \<open>
  The claim as first stated (orders contiguous over the kept entries, so b at order 1)
  fails: importing a record with the takeaways a, empty, b stores b at order 2.
\<close>

theorem takeaway_order_contiguous_counterexample:
  "summary (handle example_env clock_a False takeaway_files empty_store) = Some (1, 1, 0)
   \<and> map (\<lambda>t. (takeaway_order t, takeaway_text t))
       (takeaways (store_of (handle example_env clock_a False takeaway_files empty_store)))
     = [(0, ''a''), (2, ''b'')]"
  by code_simp

section \<open>Identifiers are normalized when a stock is written or looked up\<close>

lemma normalize_upper_eq: "normalize_upper v = upper (strip v)"
  by (simp add: normalize_upper_def upper_def strip_def)

lemma find_stock_normalized:
  "upper (strip t1) = upper (strip t2) \<Longrightarrow> upper (strip r1) = upper (strip r2)
     \<Longrightarrow> find_stock d t1 r1 = find_stock d t2 r2"
  by (simp add: find_stock_def normalize_upper_eq)

lemma atomic_block_stock_found:
  assumes "find_stock d (p_ticker p) (p_region p) = Some s"
    and "atomic_block E clock p d = Inr (d', n', c)"
  shows "stocks d' = stocks d"
proof -
  obtain r c2 d2 n2 where rg: "DailyReport_get_or_create E clock (p_ticks p) d s (p_as_of_ts p) (p_report_defaults p) = (r, c2, d2, n2)"
    by (metis prod_cases4)
  from assms rg DailyReport_get_or_create_result(3)[OF rg] show ?thesis
    by (auto simp: atomic_block_def Stock_get_or_create_found[OF assms(1)]
             split: if_splits sum.splits)
qed

text \<open>
  C9. Ticker, region and currency code are trimmed and uppercased when a stock is written:
  the ticker " cop " and the region "us" are stored as COP and US. Two keys that differ
  only in case or surrounding whitespace resolve to the same stock row: the second
  get-or-create finds the row of the first and creates nothing, also when two records
  are imported one after the other.
\<close>

theorem identifiers_normalized_on_write:
  "normalize_upper '' cop '' = ''COP'' \<and> normalize_upper ''us'' = ''US''
   \<and> (Stock_get_or_create E d t r co cu = (s, True, d') \<longrightarrow>
         ticker s = upper (strip t) \<and> region s = upper (strip r)
       \<and> currency_code s = upper (strip (to_python E cu))
       \<and> stocks d' = stocks d @ [s])
   \<and> (upper (strip t1) = upper (strip t2) \<and> upper (strip r1) = upper (strip r2)
       \<and> Stock_get_or_create E d t1 r1 co1 cu1 = (s1, c1, d1) \<longrightarrow>
         Stock_get_or_create E d1 t2 r2 co2 cu2 = (s1, False, d1))
   \<and> (upper (strip (p_ticker p1)) = upper (strip (p_ticker p2))
       \<and> upper (strip (p_region p1)) = upper (strip (p_region p2))
       \<and> atomic_block E clock p1 d = Inr (e1, n1, b1)
       \<and> atomic_block E clock' p2 e1 = Inr (e2, n2, b2) \<longrightarrow>
         stocks e2 = stocks e1
       \<and> find_stock e2 (p_ticker p2) (p_region p2) = find_stock e1 (p_ticker p1) (p_region p1)
       \<and> find_stock e1 (p_ticker p1) (p_region p1) \<noteq> None)"
proof -
  have a: "normalize_upper '' cop '' = ''COP'' \<and> normalize_upper ''us'' = ''US''"
    by code_simp
  have b: "ticker s = upper (strip t) \<and> region s = upper (strip r)
       \<and> currency_code s = upper (strip (to_python E cu))
       \<and> stocks d' = stocks d @ [s]"
    if "Stock_get_or_create E d t r co cu = (s, True, d')"
    using that
    by (auto simp: Stock_get_or_create_def Let_def normalize_upper_eq split: option.splits)
  have c: "Stock_get_or_create E d1 t2 r2 co2 cu2 = (s1, False, d1)"
    if "upper (strip t1) = upper (strip t2)" "upper (strip r1) = upper (strip r2)"
       "Stock_get_or_create E d t1 r1 co1 cu1 = (s1, c1, d1)"
    using Stock_get_or_create_result(1)[OF that(3)] find_stock_normalized[OF that(1,2), of d1]
    by (simp add: Stock_get_or_create_found)
  have e: "stocks e2 = stocks e1
       \<and> find_stock e2 (p_ticker p2) (p_region p2) = find_stock e1 (p_ticker p1) (p_region p1)
       \<and> find_stock e1 (p_ticker p1) (p_region p1) \<noteq> None"
    if n: "upper (strip (p_ticker p1)) = upper (strip (p_ticker p2))"
          "upper (strip (p_region p1)) = upper (strip (p_region p2))"
      and a1: "atomic_block E clock p1 d = Inr (e1, n1, b1)"
      and a2: "atomic_block E clock' p2 e1 = Inr (e2, n2, b2)"
  proof -
    from atomic_block_result(1)[OF a1] obtain s where
      s: "find_stock e1 (p_ticker p1) (p_region p1) = Some s"
      by (auto simp: present_def split: option.splits)
    then have s2: "find_stock e1 (p_ticker p2) (p_region p2) = Some s"
      using find_stock_normalized[OF n, of e1] by simp
    from find_stock_extends[OF s2 atomic_block_result(2)[OF a2]] atomic_block_stock_found[OF s2 a2] s
    show ?thesis by simp
  qed
  from a b c e show ?thesis by blast
qed

theorem identifiers_normalized_on_write_witness:
  "Stock_get_or_create example_env empty_store '' cop '' ''us'' (JStr ''Conoco'') (JStr '' usd '')
     = (conoco, True, one_stock_store)
   \<and> ticker conoco = ''COP'' \<and> region conoco = ''US'' \<and> currency_code conoco = ''USD''
   \<and> Stock_get_or_create example_env one_stock_store ''COP'' '' Us '' (JStr ''Other'') (JStr ''EUR'')
     = (conoco, False, one_stock_store)
   \<and> map (\<lambda>s. (ticker s, region s))
        (stocks (store_of (handle example_env clock_a False example_files empty_store)))
     = [(''COP'', ''US''), (''XOM'', ''US'')]"
proof -
  have h: "Stock_get_or_create example_env empty_store '' cop '' ''us'' (JStr ''Conoco'') (JStr '' usd '')
     = (conoco, True, one_stock_store)"
    by code_simp
  have n: "upper (strip '' cop '') = upper (strip ''COP'')" "upper (strip ''us'') = upper (strip '' Us '')"
    by code_simp+
  have v: "ticker conoco = ''COP'' \<and> region conoco = ''US'' \<and> currency_code conoco = ''USD''"
    by code_simp
  have r: "map (\<lambda>s. (ticker s, region s))
        (stocks (store_of (handle example_env clock_a False example_files empty_store)))
     = [(''COP'', ''US''), (''XOM'', ''US'')]"
    by code_simp
  from identifiers_normalized_on_write[where E = example_env and d = empty_store
      and t = "'' cop ''" and r = "''us''" and co = "JStr ''Conoco''" and cu = "JStr '' usd ''"
      and s = conoco and d' = one_stock_store
      and ?t1.0 = "'' cop ''" and ?t2.0 = "''COP''" and ?r1.0 = "''us''" and ?r2.0 = "'' Us ''"
      and ?co1.0 = "JStr ''Conoco''" and ?cu1.0 = "JStr '' usd ''" and ?s1.0 = conoco
      and ?c1.0 = True and ?d1.0 = one_stock_store
      and ?co2.0 = "JStr ''Other''" and ?cu2.0 = "JStr ''EUR''"]
    h n v r
  show ?thesis by simp
qed

section \<open>An existing stock keeps its first-seen values\<close>

text \<open>
  C10. Whatever is imported, and however the run ends, the stock table afterwards is the
  table before followed by new rows: a stock that exists at import time keeps its company
  name and currency code, and a key that resolved to it still resolves to it.
\<close>

theorem existing_stock_fields_kept:
  "(\<exists>new. stocks (store_of (handle E clock dry_run files d0)) = stocks d0 @ new)
   \<and> (find_stock d0 t r = Some s \<longrightarrow>
        find_stock (store_of (handle E clock dry_run files d0)) t r = Some s)"
  using handle_extends[of d0 E clock dry_run files] find_stock_extends[of d0 t r s]
  by (auto simp: extends_def)

theorem existing_stock_fields_kept_witness:
  "find_stock one_stock_store ''cop'' ''us'' = Some conoco
   \<and> find_stock (store_of (handle example_env clock_a False example_files one_stock_store))
       ''cop'' ''us'' = Some conoco
   \<and> company_name conoco = ''Conoco'' \<and> currency_code conoco = ''USD''
   \<and> summary (handle example_env clock_a False example_files one_stock_store) = Some (4, 2, 1)"
proof -
  have h: "find_stock one_stock_store ''cop'' ''us'' = Some conoco"
    by code_simp
  have v: "company_name conoco = ''Conoco'' \<and> currency_code conoco = ''USD''"
    by code_simp
  have s: "summary (handle example_env clock_a False example_files one_stock_store) = Some (4, 2, 1)"
    by code_simp
  from existing_stock_fields_kept[of example_env clock_a False example_files one_stock_store
      "''cop''" "''us''" conoco] h v s
  show ?thesis by simp
qed

section \<open>Malformed fields\<close>

lemma malformed_ticker_skipped:
  assumes "parse_ticker_region (get kvs ''Ticker'' (JStr [])) = Inl e"
  shows "import_item E clock dry_run (JObj kvs) st = Inr (st\<lparr>total_reports := total_reports st + 1\<rparr>)"
  using assms by (simp add: import_item_def parse_item_def Let_def)

lemma malformed_timestamp_skipped:
  assumes "parse_ticker_region (get kvs ''Ticker'' (JStr [])) = Inr tr"
    and "parse_timestamp E clock (ticks st) (get kvs ''Timestamp'' JNull) = Inl e"
  shows "import_item E clock dry_run (JObj kvs) st = Inr (st\<lparr>total_reports := total_reports st + 1\<rparr>)"
  using assms by (cases tr) (simp add: import_item_def parse_item_def Let_def)

lemma malformed_number_raises:
  assumes "parse_ticker_region (get kvs ''Ticker'' (JStr [])) = Inr tr"
    and "parse_timestamp E clock (ticks st) (get kvs ''Timestamp'' JNull) = Inr tn"
    and "to_decimal E (get kvs ''Price'' JNull) = Inl e"
  shows "import_item E clock dry_run (JObj kvs) st = Inl e"
  using assms
  by (cases tr; cases tn) (simp add: import_item_def parse_item_def build_report_defaults_def Let_def)

text \<open>
  C5. A record with a malformed ticker or timestamp is skipped and the run goes on (the
  two lemmas above). A record with a malformed number is not: \<open>to_decimal\<close> raises outside
  the \<open>try\<close>, the exception leaves the loop and the run ends there. With a first record
  whose \<open>Price\<close> is "abc", or whose \<open>2027E_EPS\<close> is "n/a", nothing is imported, although
  the second record alone imports as one new report.
\<close>

theorem malformed_number_aborts_run:
  "handle example_env clock_a False bad_price_files empty_store
     = Raised InvalidOperation empty_store
   \<and> handle example_env clock_a False bad_eps_files empty_store
     = Raised InvalidOperation empty_store
   \<and> summary (handle example_env clock_a False [JArr (tl (records (hd bad_price_files)))] empty_store)
     = Some (1, 1, 0)"
  by code_simp

section \<open>Importing a document twice\<close>

text \<open>
  C1, as amended. For documents whose records all carry a non-empty \<open>Timestamp\<close>: a second
  import, at any later time, leaves the store exactly as the first left it. If the first
  run completed with N reports created and M skipped, the second completes with the same
  number parsed, 0 created and N + M skipped; if the first run ended with an exception,
  the second ends with the same exception. Importing a record whose (stock, timestamp)
  key is in the store changes nothing in the store, whatever the record's other fields.
\<close>

theorem import_twice_same_rows:
  assumes "\<forall>data \<in> set files. \<forall>item \<in> set (records data). has_timestamp item"
  shows "(handle E clock1 False files d0 = Completed st1 \<longrightarrow>
            (\<exists>st2. handle E clock2 False files (db st1) = Completed st2
               \<and> db st2 = db st1
               \<and> total_reports st2 = total_reports st1
               \<and> created_reports st2 = 0
               \<and> skipped_reports st2 = created_reports st1 + skipped_reports st1))
       \<and> (handle E clock1 False files d0 = Raised e d1 \<longrightarrow>
            handle E clock2 False files d1 = Raised e d1)
       \<and> (present d (p_ticker p) (p_region p) (p_as_of_ts p) \<longrightarrow>
            atomic_block E clock1 p d = Inr (d, p_ticks p, False))"
  using handle_rerun_completed[OF assms, of E clock1 d0 st1 clock2]
    handle_rerun_raised[OF assms, of E clock1 d0 e d1 clock2]
    atomic_block_present_noop[of d p E clock1]
  by blast

theorem import_twice_same_rows_witness:
  "summary (handle example_env clock_a False example_files empty_store) = Some (4, 2, 1)
   \<and> summary (handle example_env clock_b False example_files
                (store_of (handle example_env clock_a False example_files empty_store)))
     = Some (4, 0, 3)
   \<and> store_of (handle example_env clock_b False example_files
                (store_of (handle example_env clock_a False example_files empty_store)))
     = store_of (handle example_env clock_a False example_files empty_store)"
proof -
  have ts: "\<forall>data \<in> set example_files. \<forall>item \<in> set (records data). has_timestamp item"
    by code_simp
  have h: "handle example_env clock_a False example_files empty_store = Completed example_first_run"
    by code_simp
  have c: "total_reports example_first_run = 4" "created_reports example_first_run = 2"
    "skipped_reports example_first_run = 1"
    by code_simp+
  from import_twice_same_rows[OF ts, of example_env clock_a empty_store example_first_run clock_b] h
  obtain st2 where "handle example_env clock_b False example_files (db example_first_run) = Completed st2"
    "db st2 = db example_first_run" "total_reports st2 = total_reports example_first_run"
    "created_reports st2 = 0"
    "skipped_reports st2 = created_reports example_first_run + skipped_reports example_first_run"
    by blast
  with c h show ?thesis
    by (simp add: summary_def store_of_def)
qed

text \<open>
  The claim as first stated (for every document, N created then N skipped) fails twice.
  A document with two records of one key creates 2 reports and skips 1, and the second
  import skips 3. A record without a \<open>Timestamp\<close> is keyed by the time of the import, so
  the second import creates a second report instead of skipping.
\<close>

theorem import_twice_no_timestamp_counterexample:
  "summary (handle example_env clock_a False example_files empty_store) = Some (4, 2, 1)
   \<and> summary (handle example_env clock_b False example_files
                (store_of (handle example_env clock_a False example_files empty_store)))
     = Some (4, 0, 3)
   \<and> summary (handle example_env clock_a False no_timestamp_files empty_store) = Some (1, 1, 0)
   \<and> summary (handle example_env clock_b False no_timestamp_files
                (store_of (handle example_env clock_a False no_timestamp_files empty_store)))
     = Some (1, 1, 0)
   \<and> map as_of_timestamp
       (reports (store_of (handle example_env clock_a False no_timestamp_files empty_store)))
     = [1768700000]
   \<and> map as_of_timestamp
       (reports (store_of (handle example_env clock_b False no_timestamp_files
                   (store_of (handle example_env clock_a False no_timestamp_files empty_store)))))
     = [1768700000, 1768800000]"
  by code_simp

section \<open>The import keeps the unique constraint on reports\<close>

lemma DailyReport_get_or_create_uniq:
  assumes "uniq_reports d" and "DailyReport_get_or_create E clock n d s ts defaults = (r, c, d', n')"
  shows "uniq_reports d'"
proof (cases "find_report d (stock_pk s) ts")
  case None
  then have "(stock_pk s, ts) \<notin> set (map (\<lambda>r. (stock_id r, as_of_timestamp r)) (reports d))"
    by (auto simp: find_report_def find_None_iff)
  with assms None show ?thesis
    by (auto simp: DailyReport_get_or_create_def uniq_reports_def Let_def)
next
  case (Some r')
  with assms show ?thesis by (simp add: DailyReport_get_or_create_def)
qed

lemma atomic_block_uniq:
  assumes "uniq_reports d" and "atomic_block E clock p d = Inr (d', n', c)"
  shows "uniq_reports d'"
proof -
  obtain s c1 d1 where sg: "Stock_get_or_create E d (p_ticker p) (p_region p) (p_company_name p) (p_currency p) = (s, c1, d1)"
    by (metis prod_cases3)
  obtain r c2 d2 n2 where rg: "DailyReport_get_or_create E clock (p_ticks p) d1 s (p_as_of_ts p) (p_report_defaults p) = (r, c2, d2, n2)"
    by (metis prod_cases4)
  have "uniq_reports d1"
    using assms(1) Stock_get_or_create_result(3)[OF sg] by (simp add: uniq_reports_def)
  from DailyReport_get_or_create_uniq[OF this rg] have "uniq_reports d2" .
  with assms(2) sg rg show ?thesis
    by (auto simp: atomic_block_def uniq_reports_def split: if_splits sum.splits)
qed

lemma import_item_uniq:
  assumes "uniq_reports (db st)" and "import_item E c dry item st = Inr st'"
  shows "uniq_reports (db st')"
proof (cases "parse_item E c (ticks st) item")
  case Skip
  with assms show ?thesis by (auto simp: import_item_def Let_def)
next
  case (Raises e)
  with assms show ?thesis by (simp add: import_item_def Let_def)
next
  case (Parsed p)
  show ?thesis
  proof (cases dry)
    case True
    with assms Parsed show ?thesis by (auto simp: import_item_def Let_def)
  next
    case False
    with assms Parsed obtain d' n' cr where ab: "atomic_block E c p (db st) = Inr (d', n', cr)"
      and "db st' = d'"
      by (auto simp: import_item_def Let_def split: sum.splits if_splits)
    with atomic_block_uniq[OF assms(1) ab] show ?thesis by simp
  qed
qed

lemma import_items_uniq:
  "uniq_reports (db st) \<Longrightarrow> uniq_reports (store_of (import_items E c dry items st))"
proof (induction items arbitrary: st)
  case Nil
  then show ?case by (simp add: store_of_def)
next
  case (Cons item items)
  show ?case
  proof (cases "import_item E c dry item st")
    case (Inl e)
    with Cons.prems show ?thesis by (simp add: store_of_def)
  next
    case (Inr st1)
    with Cons.IH[OF import_item_uniq[OF Cons.prems Inr]] show ?thesis by simp
  qed
qed

lemma import_files_uniq:
  "uniq_reports (db st) \<Longrightarrow> uniq_reports (store_of (import_files E c dry files st))"
proof (induction files arbitrary: st)
  case Nil
  then show ?case by (simp add: store_of_def)
next
  case (Cons data files)
  show ?case
  proof (cases data)
    case (JArr items)
    show ?thesis
    proof (cases "import_items E c dry items st")
      case (Completed st1)
      with import_items_uniq[OF Cons.prems, of E c dry items] have "uniq_reports (db st1)"
        by (simp add: store_of_def)
      from Cons.IH[OF this] JArr Completed show ?thesis by simp
    next
      case (Raised e d)
      with import_items_uniq[OF Cons.prems, of E c dry items] JArr show ?thesis
        by (simp add: store_of_def)
    qed
  qed (use Cons.prems in \<open>simp_all add: store_of_def\<close>)
qed

lemma handle_keeps_uniq_reports:
  "uniq_reports d0 \<Longrightarrow> uniq_reports (store_of (handle E c dry files d0))"
  using import_files_uniq[of "\<lparr>db = d0, ticks = 0, total_reports = 0, created_reports = 0,
      skipped_reports = 0\<rparr>" E c dry files]
  by (simp add: handle_def store_of_def)

lemma empty_store_uniq: "uniq_reports empty_store"
  by (simp add: uniq_reports_def empty_store_def)

section \<open>Top-upside ranking\<close>

lemma set_map_filter: "set (List.map_filter f xs) = {y. \<exists>x \<in> set xs. f x = Some y}"
  by (induction xs) (auto simp: List.map_filter_simps split: option.splits)

lemma max_upside_Some:
  "max_upside d start s = Some m \<longleftrightarrow>
     qualifying_upsides d start s \<noteq> {} \<and> m = Max (qualifying_upsides d start s)"
proof -
  let ?us = "List.map_filter upside
                 (filter (\<lambda>r. stock_id r = stock_pk s \<and> start \<le> as_of_timestamp r \<and> upside r \<noteq> None)
                    (reports d))"
  have "set ?us = qualifying_upsides d start s"
    by (auto simp: set_map_filter qualifying_upsides_def)
  moreover have "?us = [] \<longleftrightarrow> set ?us = {}" by simp
  ultimately show ?thesis
    unfolding max_upside_def Let_def by (auto simp del: set_empty)
qed

lemma upside_ranking_set:
  "(s, m) \<in> set (upside_ranking d start) \<longleftrightarrow>
     s \<in> set (stocks d) \<and> qualifying_upsides d start s \<noteq> {}
     \<and> m = Max (qualifying_upsides d start s)"
proof -
  have "(s, m) \<in> set (upside_ranking d start) \<longleftrightarrow>
          s \<in> set (stocks d) \<and> max_upside d start s = Some m"
    by (auto simp: upside_ranking_def set_map_filter)
  then show ?thesis by (simp add: max_upside_Some)
qed

lemma upside_ranking_sorted:
  "sorted_wrt (\<lambda>a b. snd a \<ge> snd b) (upside_ranking d start)"
proof -
  have "sorted (map (\<lambda>(s, m). - m) (upside_ranking d start))"
    unfolding upside_ranking_def by (rule sorted_sort_key)
  then show ?thesis
    by (simp add: sorted_wrt_map case_prod_unfold)
qed

section \<open>Downgrade events\<close>

lemma sorted_head_least:
  "sorted (map f (x # xs)) \<Longrightarrow> y \<in> set (x # xs) \<Longrightarrow> f x \<le> f y"
  by auto

lemma prev_rating_none:
  assumes "\<forall>q \<in> set (reports d). \<not> (stock_id q = stock_id r \<and> as_of_timestamp q < as_of_timestamp r)"
  shows "prev_rating d r = []"
proof -
  have "filter (\<lambda>p. stock_id p = stock_id r \<and> as_of_timestamp p < as_of_timestamp r) (reports d) = []"
    using assms by (simp add: filter_empty_conv)
  then show ?thesis by (simp add: prev_rating_def)
qed

lemma prev_rating_preceding:
  assumes u: "uniq_reports d" and p: "preceding d p r"
  shows "prev_rating d r = rating p"
proof -
  let ?earlier = "filter (\<lambda>p. stock_id p = stock_id r \<and> as_of_timestamp p < as_of_timestamp r) (reports d)"
  let ?L = "sort_key (\<lambda>p. - as_of_timestamp p) ?earlier"
  from p have pin: "p \<in> set ?L" by (simp add: preceding_def)
  then obtain p' ps where L: "?L = p' # ps" by (cases ?L) auto
  have "sorted (map (\<lambda>p. - as_of_timestamp p) (p' # ps))"
    using sorted_sort_key[of "\<lambda>p. - as_of_timestamp p" ?earlier] L by simp
  from sorted_head_least[OF this, of p] pin L
  have le: "as_of_timestamp p \<le> as_of_timestamp p'" by simp
  have p'in: "p' \<in> set ?earlier" using L by (metis list.set_intros(1) set_sort)
  then have p'r: "p' \<in> set (reports d)" "stock_id p' = stock_id r"
    "as_of_timestamp p' < as_of_timestamp r"
    by simp_all
  with p have "as_of_timestamp p' \<le> as_of_timestamp p" by (simp add: preceding_def)
  with le have eq: "as_of_timestamp p' = as_of_timestamp p" by simp
  have "inj_on (\<lambda>r. (stock_id r, as_of_timestamp r)) (set (reports d))"
    using u by (simp add: uniq_reports_def distinct_map)
  moreover have "p \<in> set (reports d)" "stock_id p = stock_id p'"
    using p p'r by (simp_all add: preceding_def)
  ultimately have "p' = p" using p'r(1) eq by (auto dest: inj_onD)
  with L show ?thesis by (simp add: prev_rating_def)
qed

lemma preceding_exists:
  assumes "q \<in> set (reports d)" "stock_id q = stock_id r" "as_of_timestamp q < as_of_timestamp r"
  shows "\<exists>p. preceding d p r"
proof -
  let ?E = "{q \<in> set (reports d). stock_id q = stock_id r \<and> as_of_timestamp q < as_of_timestamp r}"
  have fin: "finite ?E" by simp
  have ne: "?E \<noteq> {}" using assms by auto
  have "Max (as_of_timestamp ` ?E) \<in> as_of_timestamp ` ?E"
    using fin ne by (intro Max_in) auto
  then obtain p where pE: "p \<in> ?E" and pm: "as_of_timestamp p = Max (as_of_timestamp ` ?E)"
    by (metis (no_types, lifting) imageE)
  have "\<forall>q \<in> ?E. as_of_timestamp q \<le> as_of_timestamp p"
    using fin pm by (auto intro!: Max_ge)
  with pE have "p \<in> ?E \<and> (\<forall>q \<in> ?E. as_of_timestamp q \<le> as_of_timestamp p)" by blast
  then show ?thesis by (auto simp: preceding_def)
qed

lemma normalize_underperform: "normalize_rating ''UNDERPERFORM'' = ''UNDERPERFORM''"
  by code_simp

lemma downgrade_events_set:
  assumes u: "uniq_reports d"
  shows "r \<in> set (downgrade_events d) \<longleftrightarrow>
     r \<in> set (reports d) \<and> rating r = ''UNDERPERFORM''
     \<and> (\<exists>p. preceding d p r \<and> rating p \<in> {''BUY'', ''NEUTRAL''})"
proof (cases "\<exists>p. preceding d p r")
  case True
  then obtain p where p: "preceding d p r" by blast
  have same: "rating p' = rating p" if "preceding d p' r" for p'
    using prev_rating_preceding[OF u that] prev_rating_preceding[OF u p] by simp
  have "r \<in> set (downgrade_events d) \<longleftrightarrow>
     r \<in> set (reports d) \<and> rating r = ''UNDERPERFORM'' \<and> rating p \<in> {''BUY'', ''NEUTRAL''}"
    by (simp add: downgrade_events_def normalize_underperform prev_rating_preceding[OF u p])
  with p same show ?thesis by metis
next
  case False
  then have "\<forall>q \<in> set (reports d). \<not> (stock_id q = stock_id r \<and> as_of_timestamp q < as_of_timestamp r)"
    using preceding_exists by blast
  from prev_rating_none[OF this] False show ?thesis
    by (simp add: downgrade_events_def)
qed

lemma downgrade_events_sorted:
  "sorted_wrt (\<lambda>a b. as_of_timestamp a \<ge> as_of_timestamp b) (downgrade_events d)"
proof -
  have "sorted (map (\<lambda>r. - as_of_timestamp r) (downgrade_events d))"
    unfolding downgrade_events_def by (rule sorted_sort_key)
  then show ?thesis by (simp add: sorted_wrt_map)
qed

section \<open>Price series\<close>

lemma map_of_series0:
  "map_of (fold (\<lambda>sid series. AList.update sid [] series) ids acc) k
     = (if k \<in> set ids then Some [] else map_of acc k)"
  by (induction ids arbitrary: acc) (auto simp: update_conv)

lemma map_of_series1:
  "map_of (fold (\<lambda>row series. AList.map_entry (g row) (\<lambda>points. points @ [f row]) series) qs acc) k
     = map_option (\<lambda>points. points @ map f (filter (\<lambda>row. g row = k) qs)) (map_of acc k)"
proof (induction qs arbitrary: acc)
  case Nil
  then show ?case by (simp add: option.map_ident)
next
  case (Cons row qs)
  show ?case
    by (cases "map_of acc k") (auto simp: Cons.IH map_of_map_entry)
qed

lemma map_of_capped:
  "map_of (map (\<lambda>(sid, points). (sid, h points)) al) k = map_option h (map_of al k)"
  by (induction al) auto

lemma insort_key_pair_const:
  assumes "\<forall>y \<in> set ys. g y = g x"
  shows "insort_key (\<lambda>x. (g x, f x)) x ys = insort_key f x ys"
  using assms by (induction ys) (auto simp: less_eq_prod_def)

lemma sort_key_pair_const:
  assumes "\<forall>y \<in> set xs. g y = c"
  shows "sort_key (\<lambda>x. (g x, f x)) xs = sort_key f xs"
  using assms
proof (induction xs)
  case Nil
  then show ?case by simp
next
  case (Cons x xs)
  then have "sort_key (\<lambda>x. (g x, f x)) xs = sort_key f xs" by simp
  moreover have "\<forall>y \<in> set (sort_key f xs). g y = g x" using Cons.prems by simp
  ultimately show ?case by (simp add: insort_key_pair_const)
qed

lemma price_rows_of_stock:
  assumes "sid \<in> set ids"
  shows "filter (\<lambda>r. stock_id r = sid) (price_rows d ids start_dt) = chronological d sid start_dt"
proof -
  have f: "filter (\<lambda>r. stock_id r = sid)
             (filter (\<lambda>r. stock_id r \<in> set ids \<and> start_dt \<le> as_of_timestamp r
                     \<and> \<not> (price r = None \<and> price_objective r = None)) (reports d))
         = filter (chartable sid start_dt) (reports d)"
    using assms by (auto simp: chartable_def intro!: filter_cong)
  have "filter (\<lambda>r. stock_id r = sid) (price_rows d ids start_dt)
      = sort_key (\<lambda>r. (stock_id r, as_of_timestamp r)) (filter (chartable sid start_dt) (reports d))"
    unfolding price_rows_def by (simp only: filter_sort f)
  also have "\<dots> = sort_key as_of_timestamp (filter (chartable sid start_dt) (reports d))"
    by (rule sort_key_pair_const[where c = sid]) (simp add: chartable_def)
  finally show ?thesis by (simp add: chronological_def)
qed

lemma build_price_series_lookup:
  assumes "s \<in> set stocks_arg"
  shows "map_of (build_price_series isoformat float d stocks_arg start_dt) (stock_pk s)
     = Some (map (point_of isoformat float)
               (drop (length (chronological d (stock_pk s) start_dt) - CHART_MAX_POINTS)
                  (chronological d (stock_pk s) start_dt)))"
proof -
  from assms have ne: "stocks_arg \<noteq> []" and mem: "stock_pk s \<in> set (map stock_pk stocks_arg)"
    by auto
  let ?q = "chronological d (stock_pk s) start_dt"
  have "map_of (build_price_series isoformat float d stocks_arg start_dt) (stock_pk s)
      = Some (if length (map (point_of isoformat float) ?q) > CHART_MAX_POINTS
              then drop (length (map (point_of isoformat float) ?q) - CHART_MAX_POINTS)
                     (map (point_of isoformat float) ?q)
              else map (point_of isoformat float) ?q)"
    using ne mem
    by (simp add: build_price_series_def Let_def map_of_capped map_of_series1 map_of_series0
          price_rows_of_stock del: set_map)
  then show ?thesis by (simp add: drop_map)
qed

lemma build_price_series_absent:
  assumes "sid \<notin> stock_pk ` set stocks_arg"
  shows "map_of (build_price_series isoformat float d stocks_arg start_dt) sid = None"
  using assms
  by (simp add: build_price_series_def Let_def map_of_capped map_of_series1 map_of_series0)

lemma chronological_sorted: "sorted (map as_of_timestamp (drop n (chronological d sid start_dt)))"
proof -
  have "sorted (map as_of_timestamp (chronological d sid start_dt))"
    by (simp add: chronological_def)
  then show ?thesis by (simp add: drop_map[symmetric] sorted_wrt_drop)
qed

lemma chronological_set:
  "set (chronological d sid start_dt) = {r \<in> set (reports d). chartable sid start_dt r}"
  by (simp add: chronological_def)


section \<open>Ranking, downgrade events and price series: the theorems\<close>

text \<open>
  C6, as amended. The ranking metric of a stock is the maximum upside over exactly its
  reports with non-null upside and \<open>as_of_timestamp\<close> at or after \<open>now - window\<close> (there is no
  upper bound: a report dated after \<open>now\<close> counts too); \<open>now\<close> is read once. Stocks with
  no such report are excluded, the ranking is sorted by decreasing maximum and the result
  is its first \<open>limit\<close> entries. With a window of 7 days, stock A with upside 0.05 two
  days ago and 0.20 one day ago is returned with 0.20, and stock B, whose only report is
  ten days old, is excluded.
\<close>

theorem top_upside_from_window_start:
  "((s, m) \<in> set (upside_ranking d start) \<longleftrightarrow>
      s \<in> set (stocks d) \<and> qualifying_upsides d start s \<noteq> {}
      \<and> m = Max (qualifying_upsides d start s))
   \<and> sorted_wrt (\<lambda>a b. snd a \<ge> snd b) (upside_ranking d start)
   \<and> top_upside d start limit = take limit (upside_ranking d start)
   \<and> top_upside_7d (get_context_data isoformat float d now) = top_upside d (now - days 7) TOP_N_UPSIDE
   \<and> top_upside_30d (get_context_data isoformat float d now) = top_upside d (now - days 30) TOP_N_UPSIDE
   \<and> TOP_N_UPSIDE = 10
   \<and> top_upside upside_store (now0 - days 7) TOP_N_UPSIDE = [(stock_a, 0.20)]"
proof -
  have "top_upside upside_store (now0 - days 7) TOP_N_UPSIDE = [(stock_a, 0.20)]"
    by code_simp
  then show ?thesis
    using upside_ranking_set[of s m d start] upside_ranking_sorted[of d start]
    by (simp add: top_upside_def get_context_data_def Let_def TOP_N_UPSIDE_def)
qed

theorem top_upside_from_window_start_witness:
  "stock_a \<in> set (stocks upside_store)
   \<and> (stock_a, 0.20) \<in> set (upside_ranking upside_store (now0 - days 7))
   \<and> Max (qualifying_upsides upside_store (now0 - days 7) stock_a) = 0.20
   \<and> top_upside_7d (get_context_data (\<lambda>t. t) (\<lambda>r. r) upside_store now0) = [(stock_a, 0.20)]"
proof -
  note T = top_upside_from_window_start[of stock_a "0.20" upside_store "now0 - days 7" 10
      "\<lambda>t. t" "\<lambda>r. r" now0]
  have h: "stock_a \<in> set (stocks upside_store)"
    by code_simp
  have r: "(stock_a, 0.20) \<in> set (upside_ranking upside_store (now0 - days 7))"
    by code_simp
  from T r have "Max (qualifying_upsides upside_store (now0 - days 7) stock_a) = 0.20"
    by simp
  with T h r show ?thesis by simp
qed

text \<open>
  The claim as first stated (reports within \<open>[now - window, now]\<close>) fails: a stock whose
  only report is dated one day after \<open>now\<close> has no report in that interval, and the
  ranking returns it with that report's upside.
\<close>

theorem top_upside_future_report_counterexample:
  "map as_of_timestamp (reports future_store) = [now0 + days 1]
   \<and> now0 < now0 + days 1
   \<and> filter (\<lambda>r. now0 - days 7 \<le> as_of_timestamp r \<and> as_of_timestamp r \<le> now0)
         (reports future_store) = []
   \<and> top_upside_7d (get_context_data (\<lambda>t. t) (\<lambda>r. r) future_store now0) = [(stock_a, 0.5)]"
  by code_simp

text \<open>
  C7. With the unique constraint on (stock, as_of_timestamp): the downgrade events are
  exactly the reports rated UNDERPERFORM whose immediately preceding report of the same
  stock is rated BUY or NEUTRAL; a report with no earlier report of its stock is not one;
  the events are sorted by decreasing \<open>as_of_timestamp\<close> and the first 5 are returned.
\<close>

theorem downgrade_events_detected:
  assumes "uniq_reports d"
  shows "(r \<in> set (downgrade_events d) \<longleftrightarrow>
            r \<in> set (reports d) \<and> rating r = ''UNDERPERFORM''
            \<and> (\<exists>p. preceding d p r \<and> rating p \<in> {''BUY'', ''NEUTRAL''}))
       \<and> ((\<forall>q \<in> set (reports d).
              \<not> (stock_id q = stock_id r \<and> as_of_timestamp q < as_of_timestamp r))
            \<longrightarrow> r \<notin> set (downgrade_events d))
       \<and> sorted_wrt (\<lambda>a b. as_of_timestamp a \<ge> as_of_timestamp b) (downgrade_events d)
       \<and> recent_downgrades d = take 5 (downgrade_events d)
       \<and> ctx_recent_downgrades (get_context_data isoformat float d now) = recent_downgrades d"
proof -
  have "r \<notin> set (downgrade_events d)"
    if "\<forall>q \<in> set (reports d). \<not> (stock_id q = stock_id r \<and> as_of_timestamp q < as_of_timestamp r)"
    using prev_rating_none[OF that] by (simp add: downgrade_events_def)
  then show ?thesis
    using downgrade_events_set[OF assms, of r] downgrade_events_sorted[of d]
    by (simp add: recent_downgrades_def get_context_data_def Let_def)
qed

theorem downgrade_events_detected_witness:
  "uniq_reports downgrade_store
   \<and> recent_downgrades downgrade_store
       = [report_at 2 1 (now0 - days 2) ''UNDERPERFORM'' None None None]
   \<and> ctx_recent_downgrades (get_context_data (\<lambda>t. t) (\<lambda>r. r) downgrade_store now0)
       = [report_at 2 1 (now0 - days 2) ''UNDERPERFORM'' None None None]
   \<and> prev_rating downgrade_store (report_at 2 1 (now0 - days 2) ''UNDERPERFORM'' None None None) = ''BUY''
   \<and> prev_rating downgrade_store (report_at 4 2 (now0 - days 1) ''UNDERPERFORM'' None None None)
       = ''UNDERPERFORM''
   \<and> prev_rating downgrade_store (report_at 3 2 (now0 - days 3) ''UNDERPERFORM'' None None None) = []"
proof -
  have u: "uniq_reports downgrade_store"
    by code_simp
  have e: "recent_downgrades downgrade_store
       = [report_at 2 1 (now0 - days 2) ''UNDERPERFORM'' None None None]"
    by code_simp
  have p: "prev_rating downgrade_store (report_at 2 1 (now0 - days 2) ''UNDERPERFORM'' None None None) = ''BUY''"
    "prev_rating downgrade_store (report_at 4 2 (now0 - days 1) ''UNDERPERFORM'' None None None)
       = ''UNDERPERFORM''"
    "prev_rating downgrade_store (report_at 3 2 (now0 - days 3) ''UNDERPERFORM'' None None None) = []"
    by code_simp+
  from downgrade_events_detected[OF u, of _ "\<lambda>t. t" "\<lambda>r. r" now0] u e p
  show ?thesis by simp
qed

text \<open>
  C8, as amended. For each requested stock the series holds one point per report of the
  stock dated at or after the start instant (there is no upper bound: a report dated
  after \<open>now\<close> is charted too) that has a price or a price objective. A point holds the
  report's instant, its price and its price objective. The points are in order of
  increasing \<open>as_of_timestamp\<close> and cut to the last \<open>CHART_MAX_POINTS\<close> (60): every point
  cut is no later than every point kept, and a stock with 100 such reports yields exactly
  the last 60 in ascending order. A stock that was not requested has no series. The home
  view builds the two charts from the start of its 30-day and 365-day windows.
\<close>

theorem price_series_last_points:
  assumes "s \<in> set stocks_arg"
  shows "map_of (build_price_series isoformat float d stocks_arg start_dt) (stock_pk s)
           = Some (map (\<lambda>r. \<lparr>pt_t = isoformat (as_of_timestamp r),
                                pt_price = map_option float (price r),
                                pt_po = map_option float (price_objective r)\<rparr>)
                     (drop (length (chronological d (stock_pk s) start_dt) - CHART_MAX_POINTS)
                        (chronological d (stock_pk s) start_dt)))
       \<and> set (chronological d (stock_pk s) start_dt)
           = {r \<in> set (reports d). stock_id r = stock_pk s \<and> start_dt \<le> as_of_timestamp r
                                  \<and> \<not> (price r = None \<and> price_objective r = None)}
       \<and> length (chronological d (stock_pk s) start_dt)
           = length (filter (\<lambda>r. stock_id r = stock_pk s \<and> start_dt \<le> as_of_timestamp r
                                  \<and> \<not> (price r = None \<and> price_objective r = None)) (reports d))
       \<and> sorted (map as_of_timestamp
                   (drop (length (chronological d (stock_pk s) start_dt) - CHART_MAX_POINTS)
                      (chronological d (stock_pk s) start_dt)))
       \<and> (\<forall>a \<in> set (take (length (chronological d (stock_pk s) start_dt) - CHART_MAX_POINTS)
                         (chronological d (stock_pk s) start_dt)).
            \<forall>b \<in> set (drop (length (chronological d (stock_pk s) start_dt) - CHART_MAX_POINTS)
                         (chronological d (stock_pk s) start_dt)).
              as_of_timestamp a \<le> as_of_timestamp b)
       \<and> length (drop (length (chronological d (stock_pk s) start_dt) - CHART_MAX_POINTS)
                   (chronological d (stock_pk s) start_dt))
           = min (length (chronological d (stock_pk s) start_dt)) CHART_MAX_POINTS
       \<and> CHART_MAX_POINTS = 60
       \<and> (length (chronological d (stock_pk s) start_dt) = 100 \<longrightarrow>
            map_of (build_price_series isoformat float d stocks_arg start_dt) (stock_pk s)
              = Some (map (\<lambda>r. \<lparr>pt_t = isoformat (as_of_timestamp r),
                                   pt_price = map_option float (price r),
                                   pt_po = map_option float (price_objective r)\<rparr>)
                        (drop 40 (chronological d (stock_pk s) start_dt)))
            \<and> length (drop 40 (chronological d (stock_pk s) start_dt)) = 60)
       \<and> (sid \<notin> stock_pk ` set stocks_arg \<longrightarrow>
            map_of (build_price_series isoformat float d stocks_arg start_dt) sid = None)
       \<and> chart_series_30d (get_context_data isoformat float d now)
           = build_price_series isoformat float d
               (chart_stocks_30d (get_context_data isoformat float d now)) (now - days 30)
       \<and> chart_series_365d (get_context_data isoformat float d now)
           = build_price_series isoformat float d
               (chart_stocks_365d (get_context_data isoformat float d now)) (now - days 365)"
proof -
  let ?q = "chronological d (stock_pk s) start_dt"
  let ?n = "length ?q - CHART_MAX_POINTS"
  let ?pt = "\<lambda>r. \<lparr>pt_t = isoformat (as_of_timestamp r), pt_price = map_option float (price r),
                    pt_po = map_option float (price_objective r)\<rparr>"
  have pt: "point_of isoformat float = ?pt"
    by (rule ext) (simp add: point_of_def)
  have split: "\<forall>a \<in> set (take ?n ?q). \<forall>b \<in> set (drop ?n ?q). as_of_timestamp a \<le> as_of_timestamp b"
  proof -
    have "sorted (map as_of_timestamp (take ?n ?q @ drop ?n ?q))"
      by (simp add: chronological_def)
    then show ?thesis
      unfolding map_append sorted_append by auto
  qed
  have ch: "chartable (stock_pk s) start_dt
      = (\<lambda>r. stock_id r = stock_pk s \<and> start_dt \<le> as_of_timestamp r
               \<and> \<not> (price r = None \<and> price_objective r = None))"
    by (rule ext) (simp add: chartable_def)
  have len: "length ?q = length (filter (\<lambda>r. stock_id r = stock_pk s \<and> start_dt \<le> as_of_timestamp r
                                  \<and> \<not> (price r = None \<and> price_objective r = None)) (reports d))"
    by (simp add: chronological_def ch)
  have st: "set ?q = {r \<in> set (reports d). stock_id r = stock_pk s \<and> start_dt \<le> as_of_timestamp r
                                  \<and> \<not> (price r = None \<and> price_objective r = None)}"
    using chronological_set[of d "stock_pk s" start_dt] by (simp add: ch)
  have look: "map_of (build_price_series isoformat float d stocks_arg start_dt) (stock_pk s)
           = Some (map ?pt (drop ?n ?q))"
    using build_price_series_lookup[OF assms, of isoformat float d start_dt] by (simp only: pt)
  have absent: "sid \<notin> stock_pk ` set stocks_arg \<longrightarrow>
            map_of (build_price_series isoformat float d stocks_arg start_dt) sid = None"
    using build_price_series_absent[of sid stocks_arg isoformat float d start_dt] by blast
  have hundred: "length ?q = 100 \<longrightarrow>
            map_of (build_price_series isoformat float d stocks_arg start_dt) (stock_pk s)
              = Some (map ?pt (drop 40 ?q))
            \<and> length (drop 40 ?q) = 60"
    using look by (simp add: CHART_MAX_POINTS_def)
  have c30: "chart_series_30d (get_context_data isoformat float d now)
           = build_price_series isoformat float d
               (chart_stocks_30d (get_context_data isoformat float d now)) (now - days 30)"
    by (simp add: get_context_data_def Let_def)
  have c365: "chart_series_365d (get_context_data isoformat float d now)
           = build_price_series isoformat float d
               (chart_stocks_365d (get_context_data isoformat float d now)) (now - days 365)"
    by (simp add: get_context_data_def Let_def)
  have srt: "sorted (map as_of_timestamp (drop ?n ?q))"
    by (rule chronological_sorted)
  have ln: "length (drop ?n ?q) = min (length ?q) CHART_MAX_POINTS"
    by auto
  have mx: "CHART_MAX_POINTS = 60" by (simp add: CHART_MAX_POINTS_def)
  show ?thesis
    by (intro conjI) (rule look st len srt split ln mx hundred absent c30 c365)+
qed

theorem price_series_last_points_witness:
  "stock_a \<in> set [stock_a]
   \<and> uniq_reports chart_store
   \<and> length (reports chart_store) = 102
   \<and> length (chronological chart_store (stock_pk stock_a) (now0 - days 30)) = 100
   \<and> map_of (build_price_series (\<lambda>t. t) (\<lambda>r. r) chart_store [stock_a] (now0 - days 30))
        (stock_pk stock_a)
       = Some (map (\<lambda>i. \<lparr>pt_t = now0 - 3600 * int i, pt_price = Some (of_nat i), pt_po = None\<rparr>)
                 (rev [0..<60]))
   \<and> map_option length
       (map_of (build_price_series (\<lambda>t. t) (\<lambda>r. r) chart_store [stock_a] (now0 - days 30))
          (stock_pk stock_a)) = Some 60"
proof -
  have m: "stock_a \<in> set [stock_a]" by simp
  have u: "uniq_reports chart_store"
    by code_simp
  have n: "length (reports chart_store) = 102"
    by code_simp
  have h: "length (chronological chart_store (stock_pk stock_a) (now0 - days 30)) = 100"
    by code_simp
  have e: "map_of (build_price_series (\<lambda>t. t) (\<lambda>r. r) chart_store [stock_a] (now0 - days 30))
        (stock_pk stock_a)
       = Some (map (\<lambda>i. \<lparr>pt_t = now0 - 3600 * int i, pt_price = Some (of_nat i), pt_po = None\<rparr>)
                 (rev [0..<60]))"
    by code_simp
  note T = price_series_last_points[OF m, of "\<lambda>t. t" "\<lambda>r. r" chart_store "now0 - days 30"]
  from T[THEN conjunct1] h
  have "map_option length
       (map_of (build_price_series (\<lambda>t. t) (\<lambda>r. r) chart_store [stock_a] (now0 - days 30))
          (stock_pk stock_a)) = Some 60"
    by (simp add: CHART_MAX_POINTS_def)
  then show ?thesis
    by (intro conjI) (rule m u n h e | assumption)+
qed

text \<open>
  The claim as first stated (points from the reports in the window, which ends at \<open>now\<close>)
  fails: a report dated one day after \<open>now\<close> lies in no window ending at \<open>now\<close>, and the
  30-day chart of the home view holds its point.
\<close>

theorem price_series_future_report_counterexample:
  "map as_of_timestamp (reports future_chart_store) = [now0 + days 1]
   \<and> now0 < now0 + days 1
   \<and> filter (\<lambda>r. now0 - days 30 \<le> as_of_timestamp r \<and> as_of_timestamp r \<le> now0)
         (reports future_chart_store) = []
   \<and> chart_stocks_30d (get_context_data (\<lambda>t. t) (\<lambda>r. r) future_chart_store now0) = [stock_a]
   \<and> chart_series_30d (get_context_data (\<lambda>t. t) (\<lambda>r. r) future_chart_store now0)
       = [(1, [\<lparr>pt_t = now0 + days 1, pt_price = Some 10, pt_po = Some 12\<rparr>])]
   \<and> build_price_series (\<lambda>t. t) (\<lambda>r. r) future_chart_store [stock_a] (now0 - days 30)
       = [(1, [\<lparr>pt_t = now0 + days 1, pt_price = Some 10, pt_po = Some 12\<rparr>])]"
  by code_simp

end
